theory Spec2Isabelle
  imports Main "HOL-Library.Sublist" "HOL-Library.AList"
begin

section \<open>Variable-name classification of \<open>load_adam_dc_graph.py\<close>\<close>

text \<open>
  The development embeds \<open>build_pattern_lookup\<close>, \<open>build_suffix_lookup\<close> and
  \<open>create_of_class_relationships\<close> of \<open>src/neo4j/load_adam_dc_graph.py\<close>.

  Strings are lists of 8-bit characters, read as code points below 256; on these
  the regular-expression class \<open>\d\<close> is the ten ASCII digits. Python dictionaries are
  association lists in insertion order: assigning to a key that is present replaces
  the value in place, assigning to a new key appends (\<open>AList.update\<close>). An exception
  ends the function: the result is then the failure alone, without the line printed and
  the calls made before it.
\<close>

subsection \<open>String operations of the Python runtime\<close>

text \<open>\<open>s.startswith(p)\<close> and \<open>s.endswith(p)\<close>.\<close>

definition startswith :: "string \<Rightarrow> string \<Rightarrow> bool" where
  "startswith s p = prefix p s"

definition endswith :: "string \<Rightarrow> string \<Rightarrow> bool" where
  "endswith s p = suffix p s"

text \<open>
  \<open>s.replace(old, new)\<close>: every non-overlapping occurrence of \<open>old\<close>, found from the
  left, is replaced; an empty \<open>old\<close> inserts \<open>new\<close> around every character.
\<close>

fun replace :: "string \<Rightarrow> string \<Rightarrow> string \<Rightarrow> string" where
  "replace [] old new = (if old = [] then new else [])"
| "replace (c # cs) old new =
     (if old = [] then new @ c # replace cs old new
      else if prefix old (c # cs) then new @ replace (drop (length old - 1) cs) old new
      else c # replace cs old new)"

text \<open>\<open>re.search(r"[a-z]", s)\<close>: some character of \<open>s\<close> is an ASCII lowercase letter.\<close>

definition is_lower :: "char \<Rightarrow> bool" where
  "is_lower c = (97 \<le> (of_char c :: nat) \<and> (of_char c :: nat) \<le> 122)"

definition search_lower :: "string \<Rightarrow> bool" where
  "search_lower s = list_ex is_lower s"

subsection \<open>The fragment of Python's \<open>re\<close> the generated patterns live in\<close>

text \<open>
  \<open>re.compile\<close> is modelled on the patterns made of plain characters, \<open>^\<close>, \<open>$\<close>,
  \<open>\d\<close>, capturing groups and the repeats \<open>+\<close> and \<open>{2}\<close> after a character or
  \<open>\d\<close>. The parser reads the pattern from the left as \<open>sre_parse\<close> does. It answers
  \<open>Re_error\<close> where Python raises \<open>re.error\<close> on a pattern that stayed inside the
  fragment up to that point (a closing parenthesis with no group open, a group still
  open at the end, a backslash at the end), and \<open>Unmodelled\<close> at the first construct
  outside the fragment, about which nothing is said. Groups only capture, and
  captures are never read by the program, so a group is flattened into its
  contents; the depth of open groups is kept to find unbalanced parentheses.
  \<open>Key_error\<close> is the \<open>KeyError\<close> of a dictionary subscript.
\<close>

datatype failure = Re_error | Unmodelled | Key_error

datatype re_class = Lit char | Digit

datatype re_item = At_beginning | At_end | Repeat re_class nat "nat option"

definition is_digit :: "char \<Rightarrow> bool" where
  "is_digit c = (48 \<le> (of_char c :: nat) \<and> (of_char c :: nat) \<le> 57)"

text \<open>\<open>SPECIAL_CHARS\<close> and \<open>REPEAT_CHARS\<close> of \<open>sre_parse\<close>.\<close>

definition special_char :: "char \<Rightarrow> bool" where
  "special_char c = (c \<in> set (CHR 0x5C # ''.[{()*+?^$|''))"

definition repeat_char :: "char \<Rightarrow> bool" where
  "repeat_char c = (c \<in> set ''*+?{'')"

definition repeat_next :: "string \<Rightarrow> bool" where
  "repeat_next s = (case s of [] \<Rightarrow> False | c # _ \<Rightarrow> repeat_char c)"

text \<open>
  The repeat after a character or \<open>\d\<close>: minimum, maximum (\<open>None\<close> is unbounded) and
  the number of pattern characters read. A repeat followed by a further repeat
  character (lazy, possessive or multiple repeat) is outside the fragment.
\<close>

definition parse_repeat :: "string \<Rightarrow> (nat \<times> nat option \<times> nat) option" where
  "parse_repeat s =
     (if prefix ''+'' s then
        (if repeat_next (drop 1 s) then None else Some (1, None, 1))
      else if prefix ''{2}'' s then
        (if repeat_next (drop 3 s) then None else Some (2, Some 2, 3))
      else if repeat_next s then None
      else Some (1, Some 1, 0))"

definition cons_item :: "re_item \<Rightarrow> failure + re_item list \<Rightarrow> failure + re_item list" where
  "cons_item i r = (case r of Inl e \<Rightarrow> Inl e | Inr items \<Rightarrow> Inr (i # items))"

fun re_parse :: "nat \<Rightarrow> string \<Rightarrow> failure + re_item list" where
  "re_parse depth [] = (if depth = 0 then Inr [] else Inl Re_error)"
| "re_parse depth (c # cs) =
     (if c = CHR ''^'' then
        (if repeat_next cs then Inl Unmodelled else cons_item At_beginning (re_parse depth cs))
      else if c = CHR ''$'' then
        (if repeat_next cs then Inl Unmodelled else cons_item At_end (re_parse depth cs))
      else if c = CHR ''('' then
        (if repeat_next cs then Inl Unmodelled else re_parse (Suc depth) cs)
      else if c = CHR '')'' then
        (if depth = 0 then Inl Re_error
         else if repeat_next cs then Inl Unmodelled
         else re_parse (depth - 1) cs)
      else if c = CHR 0x5C then
        (case cs of
           [] \<Rightarrow> Inl Re_error
         | e # es \<Rightarrow>
             if e = CHR ''d'' then
               (case parse_repeat es of
                  None \<Rightarrow> Inl Unmodelled
                | Some (lo, hi, n) \<Rightarrow> cons_item (Repeat Digit lo hi) (re_parse depth (drop n es)))
             else Inl Unmodelled)
      else if special_char c then Inl Unmodelled
      else
        (case parse_repeat cs of
           None \<Rightarrow> Inl Unmodelled
         | Some (lo, hi, n) \<Rightarrow> cons_item (Repeat (Lit c) lo hi) (re_parse depth (drop n cs))))"

definition re_compile :: "string \<Rightarrow> failure + re_item list" where
  "re_compile p = re_parse 0 p"

text \<open>
  \<open>pattern.match(s)\<close> is truthy when the pattern matches some prefix of \<open>s\<close>, starting
  at position 0. \<open>re_matches items at_start s\<close> matches the rest of the pattern against
  the rest \<open>s\<close> of the string; \<open>at_start\<close> says that no character has been read yet.
  Without flags, \<open>^\<close> holds at position 0 only, and \<open>$\<close> holds at the end of the
  string and just before a newline that ends the string.
\<close>

fun class_ok :: "re_class \<Rightarrow> char \<Rightarrow> bool" where
  "class_ok (Lit c) d = (d = c)"
| "class_ok Digit d = is_digit d"

fun re_matches :: "re_item list \<Rightarrow> bool \<Rightarrow> string \<Rightarrow> bool" where
  "re_matches [] at_start s = True"
| "re_matches (At_beginning # items) at_start s = (at_start \<and> re_matches items at_start s)"
| "re_matches (At_end # items) at_start s =
     ((s = [] \<or> s = [CHR ''\<newline>'']) \<and> re_matches items at_start s)"
| "re_matches (Repeat k lo hi # items) at_start s =
     list_ex (\<lambda>n. n \<le> length s \<and> list_all (class_ok k) (take n s) \<and>
                   re_matches items (at_start \<and> n = 0) (drop n s))
       [lo ..< Suc (case hi of None \<Rightarrow> length s | Some h \<Rightarrow> h)]"

definition pattern_match :: "re_item list \<Rightarrow> string \<Rightarrow> bool" where
  "pattern_match pattern s = re_matches pattern True s"

subsection \<open>The catalogue and the concrete variables\<close>

text \<open>
  A class variable and an ADaM variable are dictionaries; the functions below read the
  keys \<open>"name"\<close> and \<open>"dataset"\<close> only, the other keys are the extension of the record.
\<close>

record variable =
  name :: string
  dataset :: string

subsection \<open>\<open>build_pattern_lookup\<close>\<close>

text \<open>
  The regular expression of a template (lines 460 to 466): five replacements in the
  order of the source, then the anchors.
\<close>

definition two_digits :: string where
  "two_digits = ''('' @ [CHR 0x5C] @ ''d{2})''"

definition digit_run :: string where
  "digit_run = ''('' @ [CHR 0x5C] @ ''d+)''"

definition one_digit :: string where
  "one_digit = ''('' @ [CHR 0x5C] @ ''d)''"

definition template_regex :: "string \<Rightarrow> string" where
  "template_regex var_name =
     (let regex = var_name;
          regex = replace regex ''xx'' two_digits;
          regex = replace regex ''zz'' two_digits;
          regex = replace regex ''y'' digit_run;
          regex = replace regex ''w'' digit_run;
          regex = replace regex ''x'' one_digit
      in ''^'' @ regex @ ''$'')"

text \<open>The loop of lines 449 to 468 over the catalogue, with the dictionary so far.\<close>

fun pattern_loop ::
  "(string \<times> string) list \<Rightarrow> 'a variable_scheme list \<Rightarrow> (string \<times> string) list" where
  "pattern_loop pattern_lookup [] = pattern_lookup"
| "pattern_loop pattern_lookup (var # vars) =
     (let var_name = name var in
      if startswith var_name ''--'' then pattern_loop pattern_lookup vars
      else if search_lower var_name then
        pattern_loop (AList.update (template_regex var_name) var_name pattern_lookup) vars
      else pattern_loop pattern_lookup vars)"

definition build_pattern_lookup ::
  "'a variable_scheme list \<Rightarrow> (string \<times> string) list \<times> string set" where
  "build_pattern_lookup class_variables =
     (let class_var_names = set (map name class_variables)
      in (pattern_loop [] class_variables, class_var_names))"

subsection \<open>\<open>build_suffix_lookup\<close>\<close>

fun suffix_loop ::
  "(string \<times> string) list \<Rightarrow> 'a variable_scheme list \<Rightarrow> (string \<times> string) list" where
  "suffix_loop suffix_lookup [] = suffix_lookup"
| "suffix_loop suffix_lookup (var # vars) =
     (let var_name = name var in
      if startswith var_name ''--'' then
        (let suffix = drop 2 var_name
         in suffix_loop (AList.update suffix var_name suffix_lookup) vars)
      else suffix_loop suffix_lookup vars)"

definition build_suffix_lookup :: "'a variable_scheme list \<Rightarrow> (string \<times> string) list" where
  "build_suffix_lookup class_variables = suffix_loop [] class_variables"

subsection \<open>\<open>create_of_class_relationships\<close>\<close>

text \<open>
  The session is the database behind \<open>session.run\<close>. The three calls of the function
  send the same query, which matches the ADaM Variable node \<open>(var_name, dataset)\<close> and
  the ADaM Class Variable node \<open>class_var_name\<close>, merges the \<open>OF_CLASS\<close> relationship
  between them and returns the number of rows. Merging a relationship does not change
  which nodes match, so the answer is a function of the three parameters: the \<open>cnt\<close> of
  the record, or \<open>None\<close> when \<open>result.single()\<close> has no record.
\<close>

type_synonym session = "string \<Rightarrow> string \<Rightarrow> string \<Rightarrow> nat option"

text \<open>\<open>record and record["cnt"] > 0\<close>\<close>

definition confirmed :: "nat option \<Rightarrow> bool" where
  "confirmed record = (case record of None \<Rightarrow> False | Some cnt \<Rightarrow> 0 < cnt)"

text \<open>
  What the function does to the world is the sequence of its \<open>session.run\<close> calls and its
  two printed lines. A call is written with the place it is made from (the tier) and its
  parameters \<open>var_name\<close>, \<open>dataset\<close>, \<open>class_var_name\<close>.
\<close>

datatype tier = Exact | Suffix | Pattern

type_synonym call = "tier \<times> string \<times> string \<times> string"

datatype line = Creating_of_class_relationships | Created_of_class_relationships nat

record index =
  ix_class_var_names :: "string set"
  ix_suffix_lookup :: "(string \<times> string) list"
  ix_sorted_suffixes :: "string list"
  ix_compiled_patterns :: "(re_item list \<times> string) list"

text \<open>
  Line 497: every key of \<open>pattern_lookup\<close> is compiled, in the order of the dictionary;
  the first \<open>re.error\<close> ends the function. Distinct pattern strings give distinct
  pattern objects, so the new dictionary has one entry for each entry of the old one,
  in the same order.
\<close>

fun compile_patterns ::
  "(string \<times> string) list \<Rightarrow> failure + (re_item list \<times> string) list" where
  "compile_patterns [] = Inr []"
| "compile_patterns ((p, var_name) # rest) =
     (case re_compile p of
        Inl e \<Rightarrow> Inl e
      | Inr pattern \<Rightarrow>
          (case compile_patterns rest of
             Inl e \<Rightarrow> Inl e
           | Inr compiled \<Rightarrow> Inr ((pattern, var_name) # compiled)))"

text \<open>
  Line 500, \<open>sorted(suffix_lookup.keys(), key=len, reverse=True)\<close>: Python's sort is
  stable also when reversed, so keys of equal length keep the order of the dictionary.
\<close>

definition sorted_by_len_reverse :: "string list \<Rightarrow> string list" where
  "sorted_by_len_reverse keys = sort_key (\<lambda>k. - int (length k)) keys"

text \<open>Lines 493 to 500.\<close>

definition build_index :: "'a variable_scheme list \<Rightarrow> failure + index" where
  "build_index class_variables =
     (let (pattern_lookup, class_var_names) = build_pattern_lookup class_variables;
          suffix_lookup = build_suffix_lookup class_variables
      in case compile_patterns pattern_lookup of
           Inl e \<Rightarrow> Inl e
         | Inr compiled_patterns \<Rightarrow>
             Inr \<lparr>ix_class_var_names = class_var_names,
                  ix_suffix_lookup = suffix_lookup,
                  ix_sorted_suffixes = sorted_by_len_reverse (map fst suffix_lookup),
                  ix_compiled_patterns = compiled_patterns\<rparr>)"

text \<open>
  The loop of lines 527 to 545: the first suffix the name ends with is looked up in the
  dictionary and the loop is left, whatever the database answers.
\<close>

fun suffix_tier ::
  "(string \<times> string) list \<Rightarrow> string list \<Rightarrow> string \<Rightarrow> failure + string option" where
  "suffix_tier suffix_lookup [] var_name = Inr None"
| "suffix_tier suffix_lookup (sfx # rest) var_name =
     (if endswith var_name sfx then
        (case map_of suffix_lookup sfx of
           None \<Rightarrow> Inl Key_error
         | Some class_var_name \<Rightarrow> Inr (Some class_var_name))
      else suffix_tier suffix_lookup rest var_name)"

text \<open>The loop of lines 549 to 566, over the items of \<open>compiled_patterns\<close>.\<close>

fun pattern_tier :: "(re_item list \<times> string) list \<Rightarrow> string \<Rightarrow> string option" where
  "pattern_tier [] var_name = None"
| "pattern_tier ((pattern, class_var_name) # rest) var_name =
     (if pattern_match pattern var_name then Some class_var_name
      else pattern_tier rest var_name)"

text \<open>
  The body of the loop over \<open>adam_variables\<close> (lines 504 to 566): the calls made for one
  variable and the final value of \<open>matched\<close>.
\<close>

definition classify :: "session \<Rightarrow> index \<Rightarrow> 'a variable_scheme \<Rightarrow> failure + call list \<times> bool" where
  "classify session idx var =
     (let var_name = name var;
          ds = dataset var;
          (calls1, matched1) =
            (if var_name \<in> ix_class_var_names idx
             then ([(Exact, var_name, ds, var_name)], confirmed (session var_name ds var_name))
             else ([], False))
      in case (if \<not> matched1
               then suffix_tier (ix_suffix_lookup idx) (ix_sorted_suffixes idx) var_name
               else Inr None) of
           Inl e \<Rightarrow> Inl e
         | Inr hit2 \<Rightarrow>
             (let (calls2, matched2) =
                    (case hit2 of
                       None \<Rightarrow> (calls1, matched1)
                     | Some class_var_name \<Rightarrow>
                         (calls1 @ [(Suffix, var_name, ds, class_var_name)],
                          confirmed (session var_name ds class_var_name)));
                  hit3 = (if \<not> matched2 then pattern_tier (ix_compiled_patterns idx) var_name
                          else None)
              in case hit3 of
                   None \<Rightarrow> Inr (calls2, matched2)
                 | Some class_var_name \<Rightarrow>
                     Inr (calls2 @ [(Pattern, var_name, ds, class_var_name)],
                          confirmed (session var_name ds class_var_name))))"

text \<open>The loop over \<open>adam_variables\<close> with the calls so far and \<open>count\<close>.\<close>

fun classify_loop ::
  "session \<Rightarrow> index \<Rightarrow> call list \<Rightarrow> nat \<Rightarrow> 'a variable_scheme list \<Rightarrow> failure + call list \<times> nat" where
  "classify_loop session idx calls count [] = Inr (calls, count)"
| "classify_loop session idx calls count (var # vars) =
     (case classify session idx var of
        Inl e \<Rightarrow> Inl e
      | Inr (calls', matched) \<Rightarrow>
          classify_loop session idx (calls @ calls') (if matched then count + 1 else count) vars)"

record outcome =
  printed :: "line list"
  session_calls :: "call list"

definition create_of_class_relationships ::
  "session \<Rightarrow> 'a variable_scheme list \<Rightarrow> 'b variable_scheme list \<Rightarrow> failure + outcome" where
  "create_of_class_relationships session adam_variables class_variables =
     (case build_index class_variables of
        Inl e \<Rightarrow> Inl e
      | Inr idx \<Rightarrow>
          (case classify_loop session idx [] 0 adam_variables of
             Inl e \<Rightarrow> Inl e
           | Inr (calls, count) \<Rightarrow>
               Inr \<lparr>printed = [Creating_of_class_relationships,
                               Created_of_class_relationships count],
                    session_calls = calls\<rparr>))"

subsection \<open>The specification's reading of a template\<close>

text \<open>
  Following the words of the specification (4.1, step 3), a template is read once from
  the left: a two-character token \<open>xx\<close> or \<open>zz\<close> is a slot of exactly two digits, \<open>y\<close>
  and \<open>w\<close> are open digit runs, a remaining \<open>x\<close> is a slot of one digit, and every
  other character stands for itself. A two-character token is looked for before a
  single-character one.
\<close>

datatype token = Two_digit | Open_run | One_digit | Literal char

definition single_token :: "char \<Rightarrow> token" where
  "single_token c =
     (if c = CHR ''y'' \<or> c = CHR ''w'' then Open_run
      else if c = CHR ''x'' then One_digit
      else Literal c)"

fun tokenize :: "string \<Rightarrow> token list" where
  "tokenize [] = []"
| "tokenize [c] = [single_token c]"
| "tokenize (c # d # cs) =
     (if c = d \<and> (c = CHR ''x'' \<or> c = CHR ''z'') then Two_digit # tokenize cs
      else single_token c # tokenize (d # cs))"

fun render :: "token \<Rightarrow> string" where
  "render Two_digit = two_digits"
| "render Open_run = digit_run"
| "render One_digit = one_digit"
| "render (Literal c) = [c]"

fun item_of :: "token \<Rightarrow> re_item" where
  "item_of Two_digit = Repeat Digit 2 (Some 2)"
| "item_of Open_run = Repeat Digit 1 None"
| "item_of One_digit = Repeat Digit 1 (Some 1)"
| "item_of (Literal c) = Repeat (Lit c) 1 (Some 1)"

fun plain_token :: "token \<Rightarrow> bool" where
  "plain_token (Literal c) = (\<not> special_char c)"
| "plain_token _ = True"

definition plain :: "string \<Rightarrow> bool" where
  "plain s = list_all (\<lambda>c. \<not> special_char c) s"

text \<open>
  A name is an instance of a token list when it is the concatenation of one segment
  for each token: the character itself, exactly two digits, one or more digits, or
  exactly one digit.
\<close>

fun segment_of :: "token \<Rightarrow> string \<Rightarrow> bool" where
  "segment_of Two_digit s = (length s = 2 \<and> list_all is_digit s)"
| "segment_of Open_run s = (1 \<le> length s \<and> list_all is_digit s)"
| "segment_of One_digit s = (length s = 1 \<and> list_all is_digit s)"
| "segment_of (Literal c) s = (s = [c])"

definition instance_of :: "token list \<Rightarrow> string \<Rightarrow> bool" where
  "instance_of toks s = (\<exists>segments. s = concat segments \<and> list_all2 segment_of toks segments)"

text \<open>The five replacements of \<open>template_regex\<close>, without the anchors.\<close>

definition replaced :: "string \<Rightarrow> string" where
  "replaced s =
     replace (replace (replace (replace (replace s ''xx'' two_digits) ''zz'' two_digits)
       ''y'' digit_run) ''w'' digit_run) ''x'' one_digit"

text \<open>
  The templates \<open>build_pattern_lookup\<close> turns into patterns, and the templates
  \<open>build_suffix_lookup\<close> registers, in catalogue order.
\<close>

definition is_pattern_template :: "string \<Rightarrow> bool" where
  "is_pattern_template var_name = (\<not> startswith var_name ''--'' \<and> search_lower var_name)"

definition pattern_templates :: "'a variable_scheme list \<Rightarrow> string list" where
  "pattern_templates class_variables = filter is_pattern_template (map name class_variables)"

definition suffix_templates :: "'a variable_scheme list \<Rightarrow> string list" where
  "suffix_templates class_variables =
     filter (\<lambda>var_name. startswith var_name ''--'') (map name class_variables)"

text \<open>
  Two databases for concrete runs: one that holds no node, so that every query returns
  the count 0, and one that holds exactly one node for every name asked for.
\<close>

definition empty_database :: session where
  "empty_database var_name ds class_var_name = Some 0"

definition loaded_database :: session where
  "loaded_database var_name ds class_var_name = Some 1"

text \<open>A list without the later repetitions of its elements.\<close>

definition first_occurrences :: "'a list \<Rightarrow> 'a list" where
  "first_occurrences xs = rev (remdups (rev xs))"

text \<open>
  The order of the three call sites in the loop body, and whether the database
  confirmed a call (\<open>matched\<close> was set after it).
\<close>

definition tier_rank :: "tier \<Rightarrow> nat" where
  "tier_rank t = (case t of Exact \<Rightarrow> 0 | Suffix \<Rightarrow> 1 | Pattern \<Rightarrow> 2)"

definition call_confirmed :: "session \<Rightarrow> call \<Rightarrow> bool" where
  "call_confirmed session c =
     (case c of (t, var_name, ds, class_var_name) \<Rightarrow> confirmed (session var_name ds class_var_name))"

section \<open>Properties\<close>

subsection \<open>Replacement and tokenisation\<close>

lemma template_regex_replaced: "template_regex t = ''^'' @ replaced t @ ''$''"
  by (simp add: template_regex_def replaced_def Let_def)

lemma replace_single:
  "replace (c # cs) [a] new = (if c = a then new @ replace cs [a] new else c # replace cs [a] new)"
  by simp

lemma replace_double:
  "replace (c # cs) [a, b] new =
     (if c = a \<and> prefix [b] cs then new @ replace (drop 1 cs) [a, b] new
      else c # replace cs [a, b] new)"
  by simp

lemma replace_pass:
  "old \<noteq> [] \<Longrightarrow> hd old \<notin> set p \<Longrightarrow> replace (p @ s) old new = p @ replace s old new"
  by (induction p) (auto simp: prefix_Cons neq_Nil_conv)

lemma replace_Nil: "old \<noteq> [] \<Longrightarrow> replace [] old new = []"
  by simp

lemma xx_head:
  "c \<noteq> CHR ''x'' \<Longrightarrow> c \<noteq> CHR ''('' \<Longrightarrow>
   prefix [c] (replace s ''xx'' two_digits) = prefix [c] s"
  by (cases s) (auto simp: two_digits_def prefix_Cons)

lemma pass_two:
  "c \<notin> set two_digits \<Longrightarrow> replace (two_digits @ s) (c # old) new = two_digits @ replace s (c # old) new"
  by (rule replace_pass) simp_all

lemma pass_run:
  "c \<notin> set digit_run \<Longrightarrow> replace (digit_run @ s) (c # old) new = digit_run @ replace s (c # old) new"
  by (rule replace_pass) simp_all

lemma pass_one:
  "c \<notin> set one_digit \<Longrightarrow> replace (one_digit @ s) (c # old) new = one_digit @ replace s (c # old) new"
  by (rule replace_pass) simp_all

lemma in_two: "c \<in> set two_digits \<longleftrightarrow> c \<in> set (CHR 0x5C # ''(d{2})'')"
  by (auto simp: two_digits_def)
lemma in_run: "c \<in> set digit_run \<longleftrightarrow> c \<in> set (CHR 0x5C # ''(d+)'')"
  by (auto simp: digit_run_def)
lemma in_one: "c \<in> set one_digit \<longleftrightarrow> c \<in> set (CHR 0x5C # ''(d)'')"
  by (auto simp: one_digit_def)

lemmas passes = pass_two pass_run pass_one in_two in_run in_one

lemma replaced_Nil: "replaced [] = []"
  by (simp add: replaced_def)

lemmas rsimps = replaced_def passes replace_double replace_single

lemma replaced_xx: "replaced (CHR ''x'' # CHR ''x'' # cs) = two_digits @ replaced cs"
  by (simp add: rsimps del: replace.simps(2)) 

lemma replaced_zz: "replaced (CHR ''z'' # CHR ''z'' # cs) = two_digits @ replaced cs"
  by (simp add: rsimps del: replace.simps(2)) 

lemma replaced_y: "replaced (CHR ''y'' # cs) = digit_run @ replaced cs"
  by (simp add: rsimps del: replace.simps(2)) 

lemma replaced_w: "replaced (CHR ''w'' # cs) = digit_run @ replaced cs"
  by (simp add: rsimps del: replace.simps(2)) 

lemma replaced_x: "\<not> prefix ''x'' cs \<Longrightarrow> replaced (CHR ''x'' # cs) = one_digit @ replaced cs"
  by (simp add: rsimps del: replace.simps(2)) 

lemma replaced_z: "\<not> prefix ''z'' cs \<Longrightarrow> replaced (CHR ''z'' # cs) = CHR ''z'' # replaced cs"
  by (simp add: rsimps xx_head del: replace.simps(2)) 

lemma replaced_other:
  "c \<notin> set ''xzyw'' \<Longrightarrow> replaced (c # cs) = c # replaced cs"
  by (simp add: rsimps del: replace.simps(2)) 

lemma template_regex_tokenize:
  "replaced t = concat (map render (tokenize t))"
proof (induction t rule: tokenize.induct)
  case 1
  show ?case by (simp add: replaced_Nil)
next
  case (2 c)
  show ?case
    by (cases "c \<in> set ''xzyw''")
       (auto simp: single_token_def replaced_x replaced_z replaced_y replaced_w
          replaced_other replaced_Nil)
next
  case (3 c d cs)
  show ?case
  proof (cases "c = d \<and> (c = CHR ''x'' \<or> c = CHR ''z'')")
    case True
    with 3 show ?thesis by (auto simp: replaced_xx replaced_zz)
  next
    case False
    with 3 have IH: "replaced (d # cs) = concat (map render (tokenize (d # cs)))" by simp
    show ?thesis
    proof (cases "c \<in> set ''xzyw''")
      case True
      with False IH show ?thesis
        by (auto simp: single_token_def replaced_x replaced_z replaced_y replaced_w)
    next
      case out: False
      with False IH show ?thesis
        by (auto simp: single_token_def replaced_other)
    qed
  qed
qed


lemma plain_tokenize: "plain t \<Longrightarrow> list_all plain_token (tokenize t)"
  by (induction t rule: tokenize.induct) (auto simp: plain_def single_token_def)

lemma repeat_special: "repeat_char c \<Longrightarrow> special_char c"
  by (auto simp: repeat_char_def special_char_def)

lemma no_repeat_rendered:
  "list_all plain_token toks \<Longrightarrow> \<not> repeat_next (concat (map render toks) @ ''$'')"
proof (cases toks)
  case Nil
  then show ?thesis by (simp add: repeat_next_def repeat_char_def)
next
  case (Cons tok rest)
  assume "list_all plain_token toks"
  with Cons show ?thesis
    by (cases tok)
       (auto simp: repeat_next_def repeat_char_def special_char_def
          two_digits_def digit_run_def one_digit_def)
qed

lemma parse_repeat_none: "\<not> repeat_next s \<Longrightarrow> parse_repeat s = Some (1, Some 1, 0)"
  by (cases s) (auto simp: parse_repeat_def repeat_next_def repeat_char_def prefix_Cons)

lemma re_parse_literal:
  "\<not> special_char c \<Longrightarrow> \<not> repeat_next s \<Longrightarrow>
   re_parse depth (c # s) = cons_item (Repeat (Lit c) 1 (Some 1)) (re_parse depth s)"
  by (auto simp: parse_repeat_none special_char_def)

lemma re_parse_two_digits:
  "\<not> repeat_next s \<Longrightarrow>
   re_parse depth (two_digits @ s) = cons_item (Repeat Digit 2 (Some 2)) (re_parse depth s)"
  by (simp add: two_digits_def parse_repeat_def repeat_next_def repeat_char_def)

lemma re_parse_digit_run:
  "\<not> repeat_next s \<Longrightarrow>
   re_parse depth (digit_run @ s) = cons_item (Repeat Digit 1 None) (re_parse depth s)"
  by (simp add: digit_run_def parse_repeat_def repeat_next_def repeat_char_def)

lemma re_parse_one_digit:
  "\<not> repeat_next s \<Longrightarrow>
   re_parse depth (one_digit @ s) = cons_item (Repeat Digit 1 (Some 1)) (re_parse depth s)"
  by (simp add: one_digit_def parse_repeat_def repeat_next_def repeat_char_def)

lemma re_parse_rendered:
  "list_all plain_token toks \<Longrightarrow>
   re_parse 0 (concat (map render toks) @ ''$'') = Inr (map item_of toks @ [At_end])"
proof (induction toks)
  case Nil
  show ?case by (simp add: repeat_next_def cons_item_def)
next
  case (Cons tok toks)
  then have rest: "\<not> repeat_next (concat (map render toks) @ ''$'')"
    and IH: "re_parse 0 (concat (map render toks) @ ''$'') = Inr (map item_of toks @ [At_end])"
    by (simp_all add: no_repeat_rendered)
  from Cons.prems have "plain_token tok" by simp
  with rest IH show ?case
    by (cases tok)
       (simp_all add: re_parse_literal re_parse_two_digits re_parse_digit_run
          re_parse_one_digit cons_item_def del: re_parse.simps)
qed

lemma re_compile_template:
  assumes "plain t"
  shows "re_compile (template_regex t) = Inr (At_beginning # map item_of (tokenize t) @ [At_end])"
proof -
  have toks: "list_all plain_token (tokenize t)" using assms by (rule plain_tokenize)
  have "re_parse 0 (CHR ''^'' # concat (map render (tokenize t)) @ ''$'')
        = cons_item At_beginning (re_parse 0 (concat (map render (tokenize t)) @ ''$''))"
    using no_repeat_rendered [OF toks] by simp
  then show ?thesis
    by (simp add: re_compile_def template_regex_replaced template_regex_tokenize
          re_parse_rendered [OF toks] cons_item_def del: re_parse.simps)
qed


subsection \<open>What a compiled template matches\<close>

lemma re_matches_Repeat:
  "re_matches (Repeat k lo hi # items) at_start s \<longleftrightarrow>
     (\<exists>n. lo \<le> n \<and> (case hi of None \<Rightarrow> True | Some h \<Rightarrow> n \<le> h) \<and> n \<le> length s \<and>
          list_all (class_ok k) (take n s) \<and> re_matches items (at_start \<and> n = 0) (drop n s))"
  by (cases hi) (auto simp: list_ex_iff)

lemma re_matches_item_of:
  "re_matches (item_of tok # items) at_start s \<longleftrightarrow>
     (\<exists>seg rest. s = seg @ rest \<and> segment_of tok seg \<and> re_matches items False rest)"
  (is "?L \<longleftrightarrow> ?R")
proof
  assume ?L
  then obtain n where n: "n \<le> length s" "list_all (class_ok (case tok of Literal c \<Rightarrow> Lit c | _ \<Rightarrow> Digit)) (take n s)"
      "re_matches items (at_start \<and> n = 0) (drop n s)"
      "case tok of Two_digit \<Rightarrow> n = 2 | Open_run \<Rightarrow> 1 \<le> n | _ \<Rightarrow> n = 1"
    by (cases tok) (auto simp: re_matches_Repeat simp del: re_matches.simps)
  from n(4) have "n \<noteq> 0" by (cases tok) auto
  with n(3) have rest: "re_matches items False (drop n s)" by simp
  have len: "length (take n s) = n" using n(1) by simp
  have seg: "segment_of tok (take n s)"
  proof (cases tok)
    case (Literal c)
    with n(4) len have "length (take n s) = Suc 0" by simp
    then obtain a where "take n s = [a]" by (cases "take n s") auto
    with n(2) Literal show ?thesis by simp
  qed (use n(2,4) len in \<open>auto simp: list_all_iff\<close>)
  have "s = take n s @ drop n s" by simp
  with seg rest show ?R by blast
next
  assume ?R
  then obtain seg rest where sr: "s = seg @ rest" "segment_of tok seg" "re_matches items False rest"
    by blast
  from sr(2) have "seg \<noteq> []" by (cases tok) auto
  with sr show ?L
    by (cases tok)
       (auto simp: re_matches_Repeat list_all_iff simp del: re_matches.simps
          intro!: exI [of _ "length seg"])
qed

lemma re_matches_items:
  "re_matches (map item_of toks @ [At_end]) at_start s \<longleftrightarrow>
     (\<exists>body rest. s = body @ rest \<and> instance_of toks body \<and> (rest = [] \<or> rest = [CHR ''\<newline>'']))"
proof (induction toks arbitrary: at_start s)
  case Nil
  show ?case by (auto simp: instance_of_def)
next
  case (Cons tok toks)
  have "re_matches (map item_of (tok # toks) @ [At_end]) at_start s \<longleftrightarrow>
        (\<exists>seg r. s = seg @ r \<and> segment_of tok seg \<and> re_matches (map item_of toks @ [At_end]) False r)"
    by (simp add: re_matches_item_of del: re_matches.simps item_of.simps)
  also have "\<dots> \<longleftrightarrow> (\<exists>seg body rest. s = seg @ body @ rest \<and> segment_of tok seg \<and>
        instance_of toks body \<and> (rest = [] \<or> rest = [CHR ''\<newline>'']))"
    by (simp only: Cons.IH) blast
  also have "\<dots> \<longleftrightarrow> (\<exists>body rest. s = body @ rest \<and> instance_of (tok # toks) body \<and>
        (rest = [] \<or> rest = [CHR ''\<newline>'']))"
    (is "?A \<longleftrightarrow> ?B")
  proof
    assume ?A
    then obtain seg body rest where a: "s = seg @ body @ rest" "segment_of tok seg"
        "instance_of toks body" "rest = [] \<or> rest = [CHR ''\<newline>'']" by blast
    from a(3) obtain segs where "body = concat segs" "list_all2 segment_of toks segs"
      by (auto simp: instance_of_def)
    with a(2) have "instance_of (tok # toks) (seg @ body)"
      unfolding instance_of_def by (intro exI [of _ "seg # segs"]) simp
    with a(1,4) show ?B by (intro exI [of _ "seg @ body"] exI [of _ rest]) simp
  next
    assume ?B
    then obtain body rest where b: "s = body @ rest" "instance_of (tok # toks) body"
        "rest = [] \<or> rest = [CHR ''\<newline>'']" by blast
    from b(2) obtain seg segs where "body = seg @ concat segs" "segment_of tok seg"
        "list_all2 segment_of toks segs"
      by (auto simp: instance_of_def list_all2_Cons1)
    with b(1,3) show ?A
      by (intro exI [of _ seg] exI [of _ "concat segs"] exI [of _ rest]) (auto simp: instance_of_def)
  qed
  finally show ?case .
qed

lemma pattern_match_template:
  "pattern_match (At_beginning # map item_of toks @ [At_end]) s \<longleftrightarrow>
     instance_of toks s \<or> (\<exists>body. s = body @ [CHR ''\<newline>''] \<and> instance_of toks body)"
  by (auto simp: pattern_match_def re_matches_items simp del: re_matches.simps(4))

subsection \<open>Dictionaries built in a loop\<close>

lemma remdups_append_filter:
  "remdups (xs @ ys) = filter (\<lambda>x. x \<notin> set ys) (remdups xs) @ remdups ys"
  by (induction xs) auto

lemma first_occurrences_append:
  "first_occurrences (xs @ ys) =
     first_occurrences xs @ filter (\<lambda>y. y \<notin> set xs) (first_occurrences ys)"
  by (simp add: first_occurrences_def remdups_append_filter rev_filter)

lemma first_occurrences_Cons:
  "first_occurrences (x # xs) = x # filter (\<lambda>y. y \<noteq> x) (first_occurrences xs)"
  using first_occurrences_append [of "[x]" xs] by (simp add: first_occurrences_def)

lemma first_occurrences_distinct: "distinct xs \<Longrightarrow> first_occurrences xs = xs"
  by (simp add: first_occurrences_def distinct_remdups_id)

lemma set_first_occurrences: "set (first_occurrences xs) = set xs"
  by (simp add: first_occurrences_def)

lemma distinct_first_occurrences: "distinct (first_occurrences xs)"
  by (simp add: first_occurrences_def)

lemma first_occurrences_seen:
  assumes "k \<in> set xs"
  shows "first_occurrences (xs @ k # ys) = first_occurrences (xs @ ys)"
proof -
  have "filter (\<lambda>y. y \<notin> set xs) (filter (\<lambda>y. y \<noteq> k) (first_occurrences ys))
        = filter (\<lambda>y. y \<notin> set xs) (first_occurrences ys)"
    using assms by (auto intro: filter_cong)
  with assms show ?thesis
    by (simp add: first_occurrences_append [of xs] first_occurrences_Cons)
qed

lemma updates_keys:
  "distinct (map fst al) \<Longrightarrow> length ks = length vs \<Longrightarrow>
   map fst (AList.updates ks vs al) = first_occurrences (map fst al @ ks)"
proof (induction ks arbitrary: vs al)
  case Nil
  then show ?case by (simp add: first_occurrences_distinct)
next
  case (Cons k ks)
  then obtain v vs' where vs: "vs = v # vs'" "length ks = length vs'"
    by (cases vs) auto
  have d: "distinct (map fst (AList.update k v al))"
    using Cons.prems(1) by (rule AList.distinct_update)
  have "map fst (AList.updates (k # ks) vs al)
        = first_occurrences (map fst (AList.update k v al) @ ks)"
    using Cons.IH [OF d vs(2)] vs(1) by simp
  also have "\<dots> = first_occurrences (map fst al @ k # ks)"
    by (simp add: AList.update_keys first_occurrences_seen)
  finally show ?case .
qed

lemma find_SomeD: "List.find P xs = Some x \<Longrightarrow> x \<in> set xs \<and> P x"
  by (induction xs) (auto split: if_splits)

lemma map_of_keyed: "map_of (map (\<lambda>n. (f n, n)) xs) r = List.find (\<lambda>n. f n = r) xs"
  by (induction xs) auto

lemma zip_keyed: "zip (map f xs) xs = map (\<lambda>n. (f n, n)) xs"
  by (induction xs) auto

lemma updates_map_of_empty:
  "map_of (AList.updates (map f xs) xs []) r = List.find (\<lambda>n. f n = r) (rev xs)"
proof -
  have "rev (map (\<lambda>n. (f n, n)) xs) = map (\<lambda>n. (f n, n)) (rev xs)"
    by (simp add: rev_map)
  then show ?thesis
    by (simp add: AList.updates_conv' map_upds_def zip_keyed map_of_keyed del: rev_map)
qed

lemma pattern_loop_updates:
  "pattern_loop pl cvs =
     AList.updates (map template_regex (pattern_templates cvs)) (pattern_templates cvs) pl"
  by (induction cvs arbitrary: pl)
     (auto simp: pattern_templates_def is_pattern_template_def Let_def)

lemma suffix_loop_updates:
  "suffix_loop sl cvs =
     AList.updates (map (drop 2) (suffix_templates cvs)) (suffix_templates cvs) sl"
  by (induction cvs arbitrary: sl) (auto simp: suffix_templates_def Let_def)

lemma pattern_lookup_keys:
  "map fst (fst (build_pattern_lookup cvs)) =
     first_occurrences (map template_regex (pattern_templates cvs))"
  by (simp add: build_pattern_lookup_def pattern_loop_updates updates_keys)

lemma pattern_lookup_distinct: "distinct (map fst (fst (build_pattern_lookup cvs)))"
  by (simp add: pattern_lookup_keys distinct_first_occurrences)

lemma pattern_lookup_map_of:
  "map_of (fst (build_pattern_lookup cvs)) r =
     List.find (\<lambda>n. template_regex n = r) (rev (pattern_templates cvs))"
  by (simp add: build_pattern_lookup_def pattern_loop_updates updates_map_of_empty)

lemma pattern_lookup_entry:
  "(r, n) \<in> set (fst (build_pattern_lookup cvs)) \<longleftrightarrow>
     List.find (\<lambda>n. template_regex n = r) (rev (pattern_templates cvs)) = Some n"
  using map_of_eq_Some_iff [OF pattern_lookup_distinct, of cvs r n]
  by (simp add: pattern_lookup_map_of)

lemma suffix_lookup_keys:
  "map fst (build_suffix_lookup cvs) = first_occurrences (map (drop 2) (suffix_templates cvs))"
  by (simp add: build_suffix_lookup_def suffix_loop_updates updates_keys)

lemma suffix_lookup_distinct: "distinct (map fst (build_suffix_lookup cvs))"
  by (simp add: suffix_lookup_keys distinct_first_occurrences)

lemma startswith_dashes: "startswith n ''--'' \<longleftrightarrow> n = ''--'' @ drop 2 n"
  by (auto simp: startswith_def prefix_def)

lemma suffix_lookup_map_of:
  "map_of (build_suffix_lookup cvs) k =
     (if ''--'' @ k \<in> set (map name cvs) then Some (''--'' @ k) else None)"
proof -
  have "map_of (build_suffix_lookup cvs) k =
        List.find (\<lambda>n. drop 2 n = k) (rev (suffix_templates cvs))"
    by (simp add: build_suffix_lookup_def suffix_loop_updates updates_map_of_empty)
  also have "\<dots> = (if ''--'' @ k \<in> set (map name cvs) then Some (''--'' @ k) else None)"
  proof (cases "''--'' @ k \<in> set (map name cvs)")
    case True
    then have "''--'' @ k \<in> set (rev (suffix_templates cvs))"
      by (simp add: suffix_templates_def startswith_def)
    then obtain n where "List.find (\<lambda>n. drop 2 n = k) (rev (suffix_templates cvs)) = Some n"
      by (cases "List.find (\<lambda>n. drop 2 n = k) (rev (suffix_templates cvs))")
         (auto simp: find_None_iff)
    moreover from this have "drop 2 n = k" "startswith n ''--''"
      by (auto simp: suffix_templates_def dest: find_SomeD)
    ultimately show ?thesis using True startswith_dashes [of n] by simp
  next
    case False
    have "List.find (\<lambda>n. drop 2 n = k) (rev (suffix_templates cvs)) = None"
    proof (rule ccontr)
      assume "List.find (\<lambda>n. drop 2 n = k) (rev (suffix_templates cvs)) \<noteq> None"
      then obtain n where "n \<in> set (suffix_templates cvs)" "drop 2 n = k"
        by (auto simp: find_None_iff)
      then have "n \<in> set (map name cvs)" "n = ''--'' @ k"
        using startswith_dashes [of n] by (auto simp: suffix_templates_def)
      with False show False by simp
    qed
    with False show ?thesis by simp
  qed
  finally show ?thesis .
qed

lemma suffix_lookup_entry:
  "(k, t) \<in> set (build_suffix_lookup cvs) \<longleftrightarrow> t = ''--'' @ k \<and> t \<in> set (map name cvs)"
  using map_of_eq_Some_iff [OF suffix_lookup_distinct, of cvs k t]
  by (auto simp: suffix_lookup_map_of split: if_splits)

subsection \<open>The index and the three tiers\<close>

lemma compile_patterns_Inr:
  "compile_patterns pl = Inr cps \<Longrightarrow>
   list_all2 (\<lambda>(p, n) (c, m). re_compile p = Inr c \<and> m = n) pl cps"
  by (induction pl arbitrary: cps) (auto split: sum.splits)

lemma compile_patterns_snd: "compile_patterns pl = Inr cps \<Longrightarrow> map snd cps = map snd pl"
  by (induction pl arbitrary: cps) (auto split: sum.splits)

lemma compile_patterns_total:
  "\<forall>p \<in> set (map fst pl). \<exists>c. re_compile p = Inr c \<Longrightarrow> \<exists>cps. compile_patterns pl = Inr cps"
  by (induction pl) (auto split: sum.splits)

lemma compile_patterns_fail:
  "p \<in> set (map fst pl) \<Longrightarrow> re_compile p = Inl e \<Longrightarrow> \<exists>e'. compile_patterns pl = Inl e'"
  by (induction pl) (force split: sum.splits)+

lemma build_index_Inr:
  assumes "build_index cvs = Inr idx"
  shows "ix_class_var_names idx = set (map name cvs)"
    and "ix_suffix_lookup idx = build_suffix_lookup cvs"
    and "ix_sorted_suffixes idx = sorted_by_len_reverse (map fst (build_suffix_lookup cvs))"
    and "compile_patterns (fst (build_pattern_lookup cvs)) = Inr (ix_compiled_patterns idx)"
  using assms
  by (auto simp: build_index_def build_pattern_lookup_def Let_def split: sum.splits)

lemma build_index_cases:
  "build_index cvs =
     (case compile_patterns (fst (build_pattern_lookup cvs)) of
        Inl e \<Rightarrow> Inl e
      | Inr cps \<Rightarrow>
          Inr \<lparr>ix_class_var_names = set (map name cvs),
               ix_suffix_lookup = build_suffix_lookup cvs,
               ix_sorted_suffixes = sorted_by_len_reverse (map fst (build_suffix_lookup cvs)),
               ix_compiled_patterns = cps\<rparr>)"
  by (simp add: build_index_def build_pattern_lookup_def Let_def split: sum.splits)

lemma suffix_tier_find:
  "\<forall>s \<in> set ss. map_of sl s \<noteq> None \<Longrightarrow>
   suffix_tier sl ss v =
     Inr (case List.find (endswith v) ss of None \<Rightarrow> None | Some s \<Rightarrow> map_of sl s)"
  by (induction ss) auto

lemma suffix_tier_built:
  "suffix_tier (build_suffix_lookup cvs)
       (sorted_by_len_reverse (map fst (build_suffix_lookup cvs))) v =
     Inr (map_option (\<lambda>s. ''--'' @ s)
            (List.find (endswith v) (sorted_by_len_reverse (map fst (build_suffix_lookup cvs)))))"
proof -
  let ?sl = "build_suffix_lookup cvs"
  let ?ss = "sorted_by_len_reverse (map fst ?sl)"
  have keys: "\<forall>s \<in> set ?ss. map_of ?sl s = Some (''--'' @ s)"
  proof
    fix s assume "s \<in> set ?ss"
    then obtain t where "(s, t) \<in> set ?sl" by (auto simp: sorted_by_len_reverse_def)
    then show "map_of ?sl s = Some (''--'' @ s)"
      by (auto simp: suffix_lookup_entry suffix_lookup_map_of)
  qed
  then have "\<forall>s \<in> set ?ss. map_of ?sl s \<noteq> None" by simp
  then have "suffix_tier ?sl ?ss v =
     Inr (case List.find (endswith v) ?ss of None \<Rightarrow> None | Some s \<Rightarrow> map_of ?sl s)"
    by (rule suffix_tier_find)
  also have "\<dots> = Inr (map_option (\<lambda>s. ''--'' @ s) (List.find (endswith v) ?ss))"
    using keys by (auto split: option.splits dest: find_SomeD)
  finally show ?thesis .
qed

lemma pattern_tier_find:
  "pattern_tier cps v = map_option snd (List.find (\<lambda>(p, n). pattern_match p v) cps)"
  by (induction cps) auto

lemma classify_exact_confirmed:
  "name var \<in> ix_class_var_names idx \<Longrightarrow>
   confirmed (session (name var) (dataset var) (name var)) \<Longrightarrow>
   classify session idx var = Inr ([(Exact, name var, dataset var, name var)], True)"
  by (simp add: classify_def Let_def)

lemma classify_built_total:
  assumes "build_index cvs = Inr idx"
  shows "\<exists>r. classify session idx var = Inr r"
  using build_index_Inr(2,3) [OF assms] suffix_tier_built [of cvs "name var"]
  by (auto simp: classify_def Let_def split: option.splits prod.splits)

lemma classify_loop_total:
  "\<forall>var \<in> set vars. \<exists>r. classify session idx var = Inr r \<Longrightarrow>
   \<exists>r. classify_loop session idx calls count vars = Inr r"
  by (induction vars arbitrary: calls count) (auto split: sum.splits prod.splits)

lemma classify_loop_single:
  "classify_loop session idx [] 0 [var] =
     (case classify session idx var of
        Inl e \<Rightarrow> Inl e
      | Inr (calls, matched) \<Rightarrow> Inr (calls, if matched then 1 else 0))"
  by (simp split: sum.splits prod.splits)

lemma create_returns:
  assumes "build_index cvs = Inr idx"
  shows "\<exists>out. create_of_class_relationships session vars cvs = Inr out"
proof -
  have "\<forall>var \<in> set vars. \<exists>r. classify session idx var = Inr r"
    using classify_built_total [OF assms] by blast
  then obtain r where "classify_loop session idx [] 0 vars = Inr r"
    using classify_loop_total by blast
  with assms show ?thesis
    by (cases r) (simp add: create_of_class_relationships_def)
qed

lemma classify_order:
  assumes "classify session idx var = Inr (cs, matched)"
  shows "sorted_wrt (\<lambda>a b. tier_rank (fst a) < tier_rank (fst b)) cs \<and>
         list_all (\<lambda>c. \<not> call_confirmed session c) (butlast cs) \<and>
         (matched \<longleftrightarrow> cs \<noteq> [] \<and> call_confirmed session (last cs))"
  using assms
  by (auto simp: classify_def Let_def tier_rank_def call_confirmed_def
        split: if_splits sum.splits option.splits)

lemma create_printed:
  assumes "create_of_class_relationships session vars cvs = Inr out"
  shows "\<exists>n. printed out = [Creating_of_class_relationships, Created_of_class_relationships n]"
  using assms
  by (auto simp: create_of_class_relationships_def split: sum.splits prod.splits)

lemma pattern_lookup_key_set:
  "set (map fst (fst (build_pattern_lookup cvs))) = template_regex ` set (pattern_templates cvs)"
  by (simp add: pattern_lookup_keys set_first_occurrences)

lemma build_index_fail:
  assumes "n \<in> set (pattern_templates cvs)" "re_compile (template_regex n) = Inl e"
  shows "\<exists>e'. build_index cvs = Inl e'"
proof -
  have "template_regex n \<in> set (map fst (fst (build_pattern_lookup cvs)))"
    using assms(1) unfolding pattern_lookup_key_set by blast
  from compile_patterns_fail [OF this assms(2)]
  show ?thesis by (auto simp: build_index_cases)
qed

lemma build_index_plain:
  assumes "\<forall>n \<in> set (pattern_templates cvs). plain n"
  shows "\<exists>idx. build_index cvs = Inr idx"
proof -
  have "\<forall>p \<in> set (map fst (fst (build_pattern_lookup cvs))). \<exists>c. re_compile p = Inr c"
    unfolding pattern_lookup_key_set using assms re_compile_template by blast
  from compile_patterns_total [OF this]
  show ?thesis by (auto simp: build_index_cases)
qed

subsection \<open>The order of the suffixes\<close>

lemma sorted_by_len_reverse_sorted:
  "sorted_wrt (\<lambda>a b. length b \<le> length a) (sorted_by_len_reverse keys)"
proof -
  have "sorted (map (\<lambda>k. - int (length k)) (sort_key (\<lambda>k. - int (length k)) keys))"
    by (rule sorted_sort_key)
  then show ?thesis by (simp add: sorted_by_len_reverse_def sorted_map)
qed

lemma sorted_by_len_reverse_set: "set (sorted_by_len_reverse keys) = set keys"
  by (simp add: sorted_by_len_reverse_def)

lemma sorted_by_len_reverse_distinct:
  "distinct (sorted_by_len_reverse keys) = distinct keys"
  by (simp add: sorted_by_len_reverse_def)

lemma find_first_is_longest:
  assumes sorted: "sorted_wrt (\<lambda>a b. length b \<le> length a) ss"
    and found: "List.find P ss = Some s"
    and k: "k \<in> set ss" "P k"
  shows "length k \<le> length s"
proof -
  from found obtain i where i: "i < length ss" "s = ss ! i" "\<forall>j<i. \<not> P (ss ! j)"
    by (auto simp: find_Some_iff)
  from k(1) obtain j where j: "j < length ss" "k = ss ! j"
    by (auto simp: in_set_conv_nth)
  from i(3) j(2) k(2) have "\<not> j < i" by auto
  then have "i = j \<or> i < j" by auto
  then show ?thesis
  proof
    assume "i = j" with i(2) j(2) show ?thesis by simp
  next
    assume "i < j"
    from sorted_wrt_nth_less [OF sorted this j(1)] i(2) j(2) show ?thesis by simp
  qed
qed

lemma find_exists: "k \<in> set ss \<Longrightarrow> P k \<Longrightarrow> \<exists>s. List.find P ss = Some s"
  by (cases "List.find P ss") (auto simp: find_None_iff)

lemma endswith_same_length:
  "endswith v a \<Longrightarrow> endswith v b \<Longrightarrow> length a = length b \<Longrightarrow> a = b"
  by (auto simp: endswith_def suffix_def)

lemma suffix_key_iff:
  "k \<in> set (map fst (build_suffix_lookup cvs)) \<longleftrightarrow> ''--'' @ k \<in> set (map name cvs)"
proof -
  have "k \<in> set (map fst (build_suffix_lookup cvs)) \<longleftrightarrow>
        (\<exists>t. (k, t) \<in> set (build_suffix_lookup cvs))"
    by force
  then show ?thesis unfolding suffix_lookup_entry by simp
qed


lemma classify_no_exact:
  assumes "build_index cvs = Inr idx" "name var \<notin> set (map name cvs)"
  shows "classify session idx var =
     Inr (case List.find (endswith (name var)) (ix_sorted_suffixes idx) of
            None \<Rightarrow>
              (case pattern_tier (ix_compiled_patterns idx) (name var) of
                 None \<Rightarrow> ([], False)
               | Some t \<Rightarrow> ([(Pattern, name var, dataset var, t)],
                            confirmed (session (name var) (dataset var) t)))
          | Some s \<Rightarrow>
              (if confirmed (session (name var) (dataset var) (''--'' @ s))
               then ([(Suffix, name var, dataset var, ''--'' @ s)], True)
               else
                 (case pattern_tier (ix_compiled_patterns idx) (name var) of
                    None \<Rightarrow> ([(Suffix, name var, dataset var, ''--'' @ s)], False)
                  | Some t \<Rightarrow> ([(Suffix, name var, dataset var, ''--'' @ s),
                                (Pattern, name var, dataset var, t)],
                               confirmed (session (name var) (dataset var) t)))))"
  using build_index_Inr(1,2,3) [OF assms(1)] assms(2) suffix_tier_built [of cvs "name var"]
  by (auto simp: classify_def Let_def split: option.splits)

subsection \<open>The order of the patterns\<close>

lemma update_new_key: "k \<notin> set (map fst al) \<Longrightarrow> AList.update k v al = al @ [(k, v)]"
  by (induction al) auto

lemma updates_distinct_keys:
  "distinct ks \<Longrightarrow> set ks \<inter> set (map fst al) = {} \<Longrightarrow> length ks = length vs \<Longrightarrow>
   AList.updates ks vs al = al @ zip ks vs"
proof (induction ks arbitrary: vs al)
  case Nil
  then show ?case by simp
next
  case (Cons k ks)
  then obtain v vs' where vs: "vs = v # vs'" "length ks = length vs'" by (cases vs) auto
  from Cons.prems have k: "k \<notin> set (map fst al)" and d: "distinct ks"
    and i: "set ks \<inter> set (map fst (al @ [(k, v)])) = {}"
    by auto
  show ?case
    using Cons.IH [OF d i vs(2)] by (simp add: vs(1) update_new_key [OF k])
qed

lemma pattern_lookup_distinct_regexes:
  assumes "distinct (map template_regex (pattern_templates cvs))"
  shows "fst (build_pattern_lookup cvs) = map (\<lambda>n. (template_regex n, n)) (pattern_templates cvs)"
  using updates_distinct_keys [OF assms, of "[]" "pattern_templates cvs"]
  by (simp add: build_pattern_lookup_def pattern_loop_updates zip_keyed)

lemma classify_pattern_call:
  assumes "classify session idx var = Inr (cs, m)" "(Pattern, v, d, t) \<in> set cs"
  shows "pattern_tier (ix_compiled_patterns idx) (name var) = Some t"
  using assms
  by (auto simp: classify_def Let_def split: if_splits sum.splits option.splits)

lemma find_append_cases:
  "List.find P (xs @ ys) = (case List.find P xs of None \<Rightarrow> List.find P ys | Some x \<Rightarrow> Some x)"
  by (induction xs) auto

lemma pattern_templates_append:
  "pattern_templates (pre @ post) = pattern_templates pre @ pattern_templates post"
  by (simp add: pattern_templates_def)

lemma pattern_templates_subset: "set (pattern_templates cvs) \<subseteq> set (map name cvs)"
  by (auto simp: pattern_templates_def)

lemma pattern_tier_value:
  "pattern_tier cps v = Some t \<Longrightarrow> t \<in> set (map snd cps)"
  by (induction cps) (auto split: if_splits)

lemma earlier_template_shadowed:
  assumes t2: "is_pattern_template (name v2)"
    and cat: "cvs = pre @ v2 # post"
    and t1: "t1 \<notin> set (map name post)" "t1 \<noteq> name v2"
    and same: "template_regex t1 = template_regex (name v2)"
  shows "t1 \<notin> set (map snd (fst (build_pattern_lookup cvs)))"
proof
  assume "t1 \<in> set (map snd (fst (build_pattern_lookup cvs)))"
  then obtain r where "(r, t1) \<in> set (fst (build_pattern_lookup cvs))" by auto
  then have f: "List.find (\<lambda>n. template_regex n = r) (rev (pattern_templates cvs)) = Some t1"
    by (simp add: pattern_lookup_entry)
  then have r: "r = template_regex (name v2)" using same by (auto dest: find_SomeD)
  have split: "rev (pattern_templates cvs) =
      rev (pattern_templates post) @ name v2 # rev (pattern_templates pre)"
    using t2 by (simp add: cat pattern_templates_append) (simp add: pattern_templates_def)
  have "t1 \<in> set (pattern_templates post) \<or> t1 = name v2"
    using f unfolding split find_append_cases r
    by (auto split: option.splits dest: find_SomeD)
  with t1 pattern_templates_subset [of post] show False by auto
qed

subsection \<open>Instances of a token list, and the two templates of the scenarios\<close>

lemma instance_of_Nil: "instance_of [] s \<longleftrightarrow> s = []"
  by (auto simp: instance_of_def)

lemma instance_of_Cons:
  "instance_of (tok # toks) s \<longleftrightarrow>
     (\<exists>seg rest. s = seg @ rest \<and> segment_of tok seg \<and> instance_of toks rest)"
proof
  assume "instance_of (tok # toks) s"
  then obtain seg segs where "s = seg @ concat segs" "segment_of tok seg"
      "list_all2 segment_of toks segs"
    by (auto simp: instance_of_def list_all2_Cons1)
  then show "\<exists>seg rest. s = seg @ rest \<and> segment_of tok seg \<and> instance_of toks rest"
    unfolding instance_of_def by blast
next
  assume "\<exists>seg rest. s = seg @ rest \<and> segment_of tok seg \<and> instance_of toks rest"
  then obtain seg segs where "s = seg @ concat segs" "segment_of tok seg"
      "list_all2 segment_of toks segs"
    by (auto simp: instance_of_def)
  then show "instance_of (tok # toks) s"
    unfolding instance_of_def by (intro exI [of _ "seg # segs"]) simp
qed

lemma instance_of_Literal:
  "instance_of (Literal c # toks) s \<longleftrightarrow> (\<exists>rest. s = c # rest \<and> instance_of toks rest)"
  by (auto simp: instance_of_Cons)

lemma instance_of_Two_digit:
  "instance_of (Two_digit # toks) s \<longleftrightarrow>
     (\<exists>a b rest. s = a # b # rest \<and> is_digit a \<and> is_digit b \<and> instance_of toks rest)"
proof -
  have "length seg = 2 \<and> list_all is_digit seg \<longleftrightarrow> (\<exists>a b. seg = [a, b] \<and> is_digit a \<and> is_digit b)"
    for seg
    by (cases seg; cases "tl seg") auto
  then have "instance_of (Two_digit # toks) s \<longleftrightarrow>
      (\<exists>seg rest. s = seg @ rest \<and> (\<exists>a b. seg = [a, b] \<and> is_digit a \<and> is_digit b) \<and>
         instance_of toks rest)"
    by (simp add: instance_of_Cons)
  also have "\<dots> \<longleftrightarrow>
      (\<exists>a b rest. s = a # b # rest \<and> is_digit a \<and> is_digit b \<and> instance_of toks rest)"
    by (metis append_Cons append_Nil)
  finally show ?thesis .
qed

lemma instance_of_Open_run:
  "instance_of [Open_run] s \<longleftrightarrow> s \<noteq> [] \<and> list_all is_digit s"
  by (auto simp: instance_of_Cons instance_of_Nil Suc_le_eq)

lemma newline_not_digit: "\<not> is_digit CHR ''\<newline>''"
  by (simp add: is_digit_def)

lemma build_index_single_pattern:
  assumes "plain t" "is_pattern_template t"
  shows "build_index [\<lparr>name = t, dataset = cd\<rparr>] =
     Inr \<lparr>ix_class_var_names = {t}, ix_suffix_lookup = [], ix_sorted_suffixes = [],
          ix_compiled_patterns = [(At_beginning # map item_of (tokenize t) @ [At_end], t)]\<rparr>"
  using assms re_compile_template [OF assms(1)]
  by (simp add: build_index_cases build_pattern_lookup_def build_suffix_lookup_def
        is_pattern_template_def Let_def sorted_by_len_reverse_def)

lemma trt_match:
  "pattern_match (At_beginning # map item_of (tokenize ''TRTxxP'') @ [At_end]) (''TRT'' @ ds @ ''P'')
     \<longleftrightarrow> length ds = 2 \<and> list_all is_digit ds"
proof -
  have t: "tokenize ''TRTxxP'' =
      [Literal CHR ''T'', Literal CHR ''R'', Literal CHR ''T'', Two_digit, Literal CHR ''P'']"
    by (simp add: single_token_def)
  have nl: "''TRT'' @ ds @ ''P'' \<noteq> body @ [CHR ''\<newline>'']" for body
  proof
    assume "''TRT'' @ ds @ ''P'' = body @ [CHR ''\<newline>'']"
    then have "last (''TRT'' @ ds @ ''P'') = last (body @ [CHR ''\<newline>''])" by simp
    then show False by simp
  qed
  have "instance_of (tokenize ''TRTxxP'') (''TRT'' @ ds @ ''P'') \<longleftrightarrow>
        (\<exists>a b. ds @ ''P'' = [a, b, CHR ''P''] \<and> is_digit a \<and> is_digit b)"
    unfolding t by (simp add: instance_of_Literal instance_of_Two_digit instance_of_Nil)
  also have "\<dots> \<longleftrightarrow> length ds = 2 \<and> list_all is_digit ds"
  proof
    assume "\<exists>a b. ds @ ''P'' = [a, b, CHR ''P''] \<and> is_digit a \<and> is_digit b"
    then obtain a b where ab: "ds @ ''P'' = [a, b] @ ''P''" "is_digit a" "is_digit b" by auto
    from ab(1) have "ds = [a, b]" by (simp only: append_same_eq)
    with ab(2,3) show "length ds = 2 \<and> list_all is_digit ds" by simp
  next
    assume a: "length ds = 2 \<and> list_all is_digit ds"
    then obtain a b where "ds = [a, b]" by (cases ds; cases "tl ds") auto
    with a show "\<exists>a b. ds @ ''P'' = [a, b, CHR ''P''] \<and> is_digit a \<and> is_digit b" by simp
  qed
  finally show ?thesis using nl by (simp add: pattern_match_template del: tokenize.simps)
qed

lemma agegr_match:
  assumes "list_all is_digit ds"
  shows "pattern_match (At_beginning # map item_of (tokenize ''AGEGRy'') @ [At_end]) (''AGEGR'' @ ds)
     \<longleftrightarrow> ds \<noteq> []"
proof -
  have t: "tokenize ''AGEGRy'' =
      [Literal CHR ''A'', Literal CHR ''G'', Literal CHR ''E'', Literal CHR ''G'', Literal CHR ''R'',
       Open_run]"
    by (simp add: single_token_def)
  have nl: "''AGEGR'' @ ds \<noteq> body @ [CHR ''\<newline>'']" for body
  proof
    assume "''AGEGR'' @ ds = body @ [CHR ''\<newline>'']"
    then have l: "last (''AGEGR'' @ ds) = CHR ''\<newline>''" by simp
    show False
    proof (cases "ds = []")
      case True with l show False by simp
    next
      case False
      with l have "last ds = CHR ''\<newline>''" by simp
      with False have "CHR ''\<newline>'' \<in> set ds" using last_in_set by metis
      with assms newline_not_digit show False by (auto simp: list_all_iff)
    qed
  qed
  have "instance_of (tokenize ''AGEGRy'') (''AGEGR'' @ ds) \<longleftrightarrow> ds \<noteq> []"
    unfolding t using assms by (simp add: instance_of_Literal instance_of_Open_run)
  then show ?thesis using nl by (simp add: pattern_match_template del: tokenize.simps)
qed


lemma single_pattern_run:
  assumes "plain t" "is_pattern_template t" "v \<noteq> t"
  shows "create_of_class_relationships session [\<lparr>name = v, dataset = d\<rparr>] [\<lparr>name = t, dataset = cd\<rparr>] =
     Inr (if pattern_match (At_beginning # map item_of (tokenize t) @ [At_end]) v
          then \<lparr>printed = [Creating_of_class_relationships,
                            Created_of_class_relationships (if confirmed (session v d t) then 1 else 0)],
                 session_calls = [(Pattern, v, d, t)]\<rparr>
          else \<lparr>printed = [Creating_of_class_relationships, Created_of_class_relationships 0],
                 session_calls = []\<rparr>)"
  using assms(3)
  by (simp add: create_of_class_relationships_def build_index_single_pattern [OF assms(1,2)]
        classify_def Let_def del: re_matches.simps tokenize.simps)

lemma trt_template: "plain ''TRTxxP''" "is_pattern_template ''TRTxxP''"
  by (simp_all add: plain_def special_char_def is_pattern_template_def startswith_def
        search_lower_def is_lower_def)

lemma agegr_template: "plain ''AGEGRy''" "is_pattern_template ''AGEGRy''"
  by (simp_all add: plain_def special_char_def is_pattern_template_def startswith_def
        search_lower_def is_lower_def)

lemma cons_item_no_key_error: "r \<noteq> Inl Key_error \<Longrightarrow> cons_item i r \<noteq> Inl Key_error"
  by (cases r) (auto simp: cons_item_def)

lemma re_parse_no_key_error: "re_parse depth s \<noteq> Inl Key_error"
proof (induction "length s" arbitrary: depth s rule: less_induct)
  case less
  show ?case
  proof (cases s)
    case Nil
    then show ?thesis by simp
  next
    case (Cons c cs)
    have tail: "re_parse d t \<noteq> Inl Key_error" if "length t < Suc (length cs)" for d t
      using less [of t d] Cons that by simp
    show ?thesis
      unfolding Cons re_parse.simps
      by (auto simp: cons_item_no_key_error tail split: list.split option.split)
  qed
qed

lemma compile_patterns_re_error:
  assumes "\<exists>p \<in> set (map fst pl). re_compile p = Inl Re_error"
    and "\<forall>p \<in> set (map fst pl). re_compile p \<noteq> Inl Unmodelled"
  shows "compile_patterns pl = Inl Re_error"
  using assms
proof (induction pl)
  case Nil
  then show ?case by simp
next
  case (Cons a pl)
  obtain p n where a: "a = (p, n)" by (cases a)
  show ?case
  proof (cases "re_compile p")
    case (Inl e)
    with Cons.prems(2) a re_parse_no_key_error [of 0 p] have "e = Re_error"
      by (cases e) (auto simp: re_compile_def)
    with Inl a show ?thesis by simp
  next
    case (Inr c)
    with Cons.prems a have "\<exists>p \<in> set (map fst pl). re_compile p = Inl Re_error"
      and "\<forall>p \<in> set (map fst pl). re_compile p \<noteq> Inl Unmodelled"
      by auto
    from Cons.IH [OF this] Inr a show ?thesis by simp
  qed
qed

lemma build_index_re_error:
  assumes "\<exists>n \<in> set (pattern_templates cvs). re_compile (template_regex n) = Inl Re_error"
    and "\<forall>n \<in> set (pattern_templates cvs). re_compile (template_regex n) \<noteq> Inl Unmodelled"
  shows "build_index cvs = Inl Re_error"
proof -
  have "compile_patterns (fst (build_pattern_lookup cvs)) = Inl Re_error"
  proof (rule compile_patterns_re_error)
    show "\<exists>p \<in> set (map fst (fst (build_pattern_lookup cvs))). re_compile p = Inl Re_error"
      using assms(1) unfolding pattern_lookup_key_set by blast
    show "\<forall>p \<in> set (map fst (fst (build_pattern_lookup cvs))). re_compile p \<noteq> Inl Unmodelled"
      using assms(2) unfolding pattern_lookup_key_set by blast
  qed
  then show ?thesis by (simp add: build_index_cases)
qed

section \<open>The claims\<close>

text \<open>
  Claim C1, as the code has it. The loop body tries the tiers in the order exact,
  suffix, pattern, each at most once, and a later tier is tried only when no earlier
  call was confirmed by the database (\<open>record["cnt"] > 0\<close>). When the name is in the
  exact set and the database confirms the relationship, the only call is the one of
  the exact tier, with the name itself as the class variable; the suffix and pattern
  tiers are not consulted. On an index built from a catalogue the loop body always
  returns.
\<close>

theorem tiers_in_order:
  "(name var \<in> ix_class_var_names idx \<longrightarrow>
    confirmed (session (name var) (dataset var) (name var)) \<longrightarrow>
    classify session idx var = Inr ([(Exact, name var, dataset var, name var)], True)) \<and>
   (\<forall>cs matched. classify session idx var = Inr (cs, matched) \<longrightarrow>
      sorted_wrt (\<lambda>a b. tier_rank (fst a) < tier_rank (fst b)) cs \<and>
      list_all (\<lambda>c. \<not> call_confirmed session c) (butlast cs) \<and>
      (matched \<longleftrightarrow> cs \<noteq> [] \<and> call_confirmed session (last cs))) \<and>
   (build_index cvs = Inr idx \<longrightarrow> (\<exists>cs matched. classify session idx var = Inr (cs, matched)))"
  using classify_exact_confirmed [of var idx session] classify_order [of session idx var]
    classify_built_total [of cvs idx session var]
  by (cases "build_index cvs = Inr idx") auto

theorem tiers_in_order_witness:
  "''AESEQ'' \<in> ix_class_var_names
      \<lparr>ix_class_var_names = {''AESEQ'', ''--SEQ''}, ix_suffix_lookup = [(''SEQ'', ''--SEQ'')],
       ix_sorted_suffixes = [''SEQ''], ix_compiled_patterns = []\<rparr> \<and>
   confirmed (loaded_database ''AESEQ'' ''ADAE'' ''AESEQ'') \<and>
   classify loaded_database
      \<lparr>ix_class_var_names = {''AESEQ'', ''--SEQ''}, ix_suffix_lookup = [(''SEQ'', ''--SEQ'')],
       ix_sorted_suffixes = [''SEQ''], ix_compiled_patterns = []\<rparr>
      \<lparr>name = ''AESEQ'', dataset = ''ADAE''\<rparr>
     = Inr ([(Exact, ''AESEQ'', ''ADAE'', ''AESEQ'')], True) \<and>
   sorted_wrt (\<lambda>a b. tier_rank (fst a) < tier_rank (fst b))
     [(Exact, ''AESEQ'', ''ADAE'', ''AESEQ'')] \<and>
   call_confirmed loaded_database (last [(Exact, ''AESEQ'', ''ADAE'', ''AESEQ'')])"
proof -
  let ?idx = "\<lparr>ix_class_var_names = {''AESEQ'', ''--SEQ''},
               ix_suffix_lookup = [(''SEQ'', ''--SEQ'')],
               ix_sorted_suffixes = [''SEQ''], ix_compiled_patterns = []\<rparr>"
  let ?var = "\<lparr>name = ''AESEQ'', dataset = ''ADAE''\<rparr>"
  note inst = tiers_in_order [of ?var ?idx loaded_database "[] :: variable list"]
  have h1: "name ?var \<in> ix_class_var_names ?idx" by simp
  have h2: "confirmed (loaded_database (name ?var) (dataset ?var) (name ?var))"
    by (simp add: confirmed_def loaded_database_def)
  have c: "classify loaded_database ?idx ?var = Inr ([(Exact, ''AESEQ'', ''ADAE'', ''AESEQ'')], True)"
    using inst h1 h2 by simp
  have o: "sorted_wrt (\<lambda>a b. tier_rank (fst a) < tier_rank (fst b))
             [(Exact, ''AESEQ'', ''ADAE'', ''AESEQ'')] \<and>
           call_confirmed loaded_database (last [(Exact, ''AESEQ'', ''ADAE'', ''AESEQ'')])"
    using inst [THEN conjunct2, THEN conjunct1, rule_format, OF c] by simp
  from h1 h2 c o show ?thesis by simp
qed

text \<open>
  Claim C1 as stated fails: with a database that holds no node the call of the exact
  tier returns the count 0, \<open>matched\<close> stays false, and the suffix tier is consulted
  for a name of the exact set.
\<close>

theorem exact_hit_unconfirmed_counterexample:
  "create_of_class_relationships empty_database
     [\<lparr>name = ''AESEQ'', dataset = ''ADAE''\<rparr>]
     [\<lparr>name = ''AESEQ'', dataset = ''OCCDS''\<rparr>, \<lparr>name = ''--SEQ'', dataset = ''OCCDS''\<rparr>]
   = Inr \<lparr>printed = [Creating_of_class_relationships, Created_of_class_relationships 0],
          session_calls = [(Exact, ''AESEQ'', ''ADAE'', ''AESEQ''),
                           (Suffix, ''AESEQ'', ''ADAE'', ''--SEQ'')]\<rparr>"
  by code_simp

text \<open>
  Claim C2. The regular expression of a template is what a single reading of the
  template from the left gives, in which the two-character tokens \<open>xx\<close> and \<open>zz\<close> are
  taken before the single characters \<open>y\<close>, \<open>w\<close> and \<open>x\<close>, between the anchors \<open>^\<close> and
  \<open>$\<close>: a two-digit slot is carved out before the one-digit rule sees its characters.
  For a template without regular-expression metacharacters the expression compiles, and
  the compiled pattern matches exactly the names that are, from the first character to
  the last, one segment for each token; as in Python, \<open>$\<close> also accepts one final
  newline after such a name.
\<close>

theorem placeholder_substitution_order:
  "template_regex t = ''^'' @ concat (map render (tokenize t)) @ ''$'' \<and>
   (plain t \<longrightarrow>
      re_compile (template_regex t) = Inr (At_beginning # map item_of (tokenize t) @ [At_end]) \<and>
      (\<forall>s. pattern_match (At_beginning # map item_of (tokenize t) @ [At_end]) s \<longleftrightarrow>
           instance_of (tokenize t) s \<or>
           (\<exists>body. s = body @ [CHR ''\<newline>''] \<and> instance_of (tokenize t) body)))"
  using template_regex_replaced [of t] template_regex_tokenize [of t]
    re_compile_template [of t] pattern_match_template [of "tokenize t"]
  by simp

theorem placeholder_substitution_order_witness:
  "plain ''AxxBx'' \<and>
   template_regex ''AxxBx'' = ''^A'' @ two_digits @ ''B'' @ one_digit @ ''$'' \<and>
   re_compile (template_regex ''AxxBx'') =
     Inr [At_beginning, Repeat (Lit CHR ''A'') 1 (Some 1), Repeat Digit 2 (Some 2),
          Repeat (Lit CHR ''B'') 1 (Some 1), Repeat Digit 1 (Some 1), At_end] \<and>
   pattern_match [At_beginning, Repeat (Lit CHR ''A'') 1 (Some 1), Repeat Digit 2 (Some 2),
          Repeat (Lit CHR ''B'') 1 (Some 1), Repeat Digit 1 (Some 1), At_end] ''A12B3'' \<and>
   (instance_of [Literal CHR ''A'', Two_digit, Literal CHR ''B'', One_digit] ''A12B3'' \<or>
    (\<exists>body. ''A12B3'' = body @ [CHR ''\<newline>''] \<and>
       instance_of [Literal CHR ''A'', Two_digit, Literal CHR ''B'', One_digit] body))"
proof -
  have p: "plain ''AxxBx''" by (simp add: plain_def special_char_def)
  note inst = placeholder_substitution_order [of "''AxxBx''"]
  have a: "template_regex ''AxxBx'' = ''^A'' @ two_digits @ ''B'' @ one_digit @ ''$''"
    using inst by (simp add: single_token_def)
  have b: "re_compile (template_regex ''AxxBx'') =
     Inr [At_beginning, Repeat (Lit CHR ''A'') 1 (Some 1), Repeat Digit 2 (Some 2),
          Repeat (Lit CHR ''B'') 1 (Some 1), Repeat Digit 1 (Some 1), At_end]"
    using inst [THEN conjunct2] p by (simp add: single_token_def)
  have m: "pattern_match [At_beginning, Repeat (Lit CHR ''A'') 1 (Some 1), Repeat Digit 2 (Some 2),
          Repeat (Lit CHR ''B'') 1 (Some 1), Repeat Digit 1 (Some 1), At_end] ''A12B3''"
    by code_simp
  have c: "instance_of [Literal CHR ''A'', Two_digit, Literal CHR ''B'', One_digit] ''A12B3'' \<or>
    (\<exists>body. ''A12B3'' = body @ [CHR ''\<newline>''] \<and>
       instance_of [Literal CHR ''A'', Two_digit, Literal CHR ''B'', One_digit] body)"
    using inst [THEN conjunct2] p m by (simp add: single_token_def del: re_matches.simps)
  from p a b m c show ?thesis by blast
qed

text \<open>
  Claim C3. The suffix tier goes through the keys of the suffix map in descending
  order of length (the same keys, each once) and stops at the first one the name ends
  with, so its answer is the template of the longest registered suffix of the name.
  For two registered suffixes \<open>S1\<close> and \<open>S2 = c # S1\<close> and a name ending in \<open>S2\<close>, the
  tier answers with a suffix at least as long as \<open>S2\<close>, never with the template of \<open>S1\<close>;
  the answer is the template of \<open>S2\<close> whenever no longer registered suffix is a tail of
  the name, in particular when \<open>S1\<close> and \<open>S2\<close> are the only ones. For a name outside the
  exact set that answer is the class variable of the first call.
\<close>

theorem suffix_tier_longest_first:
  "build_index cvs = Inr idx \<longrightarrow>
     distinct (ix_sorted_suffixes idx) \<and>
     set (ix_sorted_suffixes idx) = set (map fst (ix_suffix_lookup idx)) \<and>
     sorted_wrt (\<lambda>a b. length b \<le> length a) (ix_sorted_suffixes idx) \<and>
     suffix_tier (ix_suffix_lookup idx) (ix_sorted_suffixes idx) v =
       Inr (map_option (\<lambda>s. ''--'' @ s) (List.find (endswith v) (ix_sorted_suffixes idx))) \<and>
     (''--'' @ S1 \<in> set (map name cvs) \<longrightarrow> ''--'' @ c # S1 \<in> set (map name cvs) \<longrightarrow>
      endswith v (c # S1) \<longrightarrow>
        (\<exists>s. suffix_tier (ix_suffix_lookup idx) (ix_sorted_suffixes idx) v = Inr (Some (''--'' @ s)) \<and>
             endswith v s \<and> length (c # S1) \<le> length s \<and> ''--'' @ s \<noteq> ''--'' @ S1 \<and>
             ((\<forall>k \<in> set (map fst (ix_suffix_lookup idx)).
                  endswith v k \<longrightarrow> length k \<le> length (c # S1)) \<longrightarrow> s = c # S1) \<and>
             (name var = v \<longrightarrow> v \<notin> set (map name cvs) \<longrightarrow>
                (\<exists>rest m. classify session idx var =
                    Inr ((Suffix, v, dataset var, ''--'' @ s) # rest, m)))))"
proof
  assume b: "build_index cvs = Inr idx"
  let ?sl = "ix_suffix_lookup idx"
  let ?ss = "ix_sorted_suffixes idx"
  note ix = build_index_Inr [OF b]
  have d: "distinct ?ss"
    by (simp add: ix sorted_by_len_reverse_distinct suffix_lookup_distinct)
  have st: "set ?ss = set (map fst ?sl)"
    by (simp add: ix sorted_by_len_reverse_set)
  have so: "sorted_wrt (\<lambda>a b. length b \<le> length a) ?ss"
    by (simp add: ix sorted_by_len_reverse_sorted)
  have tier: "suffix_tier ?sl ?ss v = Inr (map_option (\<lambda>s. ''--'' @ s) (List.find (endswith v) ?ss))"
    using suffix_tier_built [of cvs v] by (simp add: ix)
  have two: "\<exists>s. suffix_tier ?sl ?ss v = Inr (Some (''--'' @ s)) \<and>
             endswith v s \<and> length (c # S1) \<le> length s \<and> ''--'' @ s \<noteq> ''--'' @ S1 \<and>
             ((\<forall>k \<in> set (map fst ?sl). endswith v k \<longrightarrow> length k \<le> length (c # S1)) \<longrightarrow> s = c # S1) \<and>
             (name var = v \<longrightarrow> v \<notin> set (map name cvs) \<longrightarrow>
                (\<exists>rest m. classify session idx var =
                    Inr ((Suffix, v, dataset var, ''--'' @ s) # rest, m)))"
    if r: "''--'' @ c # S1 \<in> set (map name cvs)" and e: "endswith v (c # S1)"
  proof -
    have key: "c # S1 \<in> set ?ss"
      using r suffix_key_iff [of "c # S1" cvs] by (simp add: ix sorted_by_len_reverse_set)
    from find_exists [of "c # S1" ?ss "endswith v", OF key e] obtain s where f: "List.find (endswith v) ?ss = Some s" ..
    then have s: "s \<in> set ?ss" "endswith v s" by (auto dest: find_SomeD)
    have len: "length (c # S1) \<le> length s"
      using find_first_is_longest [of ?ss "endswith v" s "c # S1", OF so f key e] .
    then have ne: "s \<noteq> S1" by auto
    have longest: "s = c # S1"
      if "\<forall>k \<in> set (map fst ?sl). endswith v k \<longrightarrow> length k \<le> length (c # S1)"
    proof -
      from that s st have "length s \<le> length (c # S1)" by blast
      with len have "length s = length (c # S1)" by simp
      with s(2) e show ?thesis by (rule endswith_same_length)
    qed
    have cl: "\<exists>rest m. classify session idx var = Inr ((Suffix, v, dataset var, ''--'' @ s) # rest, m)"
      if "name var = v" "v \<notin> set (map name cvs)"
      using classify_no_exact [OF b, of var session] that f
      by (auto split: option.splits)
    from tier f s(2) len ne longest cl show ?thesis by auto
  qed
  from d st so tier two
  show "distinct ?ss \<and> set ?ss = set (map fst ?sl) \<and>
     sorted_wrt (\<lambda>a b. length b \<le> length a) ?ss \<and>
     suffix_tier ?sl ?ss v = Inr (map_option (\<lambda>s. ''--'' @ s) (List.find (endswith v) ?ss)) \<and>
     (''--'' @ S1 \<in> set (map name cvs) \<longrightarrow> ''--'' @ c # S1 \<in> set (map name cvs) \<longrightarrow>
      endswith v (c # S1) \<longrightarrow>
        (\<exists>s. suffix_tier ?sl ?ss v = Inr (Some (''--'' @ s)) \<and>
             endswith v s \<and> length (c # S1) \<le> length s \<and> ''--'' @ s \<noteq> ''--'' @ S1 \<and>
             ((\<forall>k \<in> set (map fst ?sl). endswith v k \<longrightarrow> length k \<le> length (c # S1)) \<longrightarrow> s = c # S1) \<and>
             (name var = v \<longrightarrow> v \<notin> set (map name cvs) \<longrightarrow>
                (\<exists>rest m. classify session idx var =
                    Inr ((Suffix, v, dataset var, ''--'' @ s) # rest, m)))))"
    by blast
qed


theorem suffix_tier_longest_first_witness:
  "build_index [\<lparr>name = ''--SEQ'', dataset = ''OCCDS''\<rparr>, \<lparr>name = ''--XSEQ'', dataset = ''OCCDS''\<rparr>]
     = Inr \<lparr>ix_class_var_names = {''--SEQ'', ''--XSEQ''},
            ix_suffix_lookup = [(''SEQ'', ''--SEQ''), (''XSEQ'', ''--XSEQ'')],
            ix_sorted_suffixes = [''XSEQ'', ''SEQ''],
            ix_compiled_patterns = []\<rparr> \<and>
   endswith ''AEXSEQ'' ''XSEQ'' \<and>
   suffix_tier [(''SEQ'', ''--SEQ''), (''XSEQ'', ''--XSEQ'')] [''XSEQ'', ''SEQ''] ''AEXSEQ''
     = Inr (Some ''--XSEQ'') \<and>
   (\<exists>rest m. classify loaded_database
        \<lparr>ix_class_var_names = {''--SEQ'', ''--XSEQ''},
         ix_suffix_lookup = [(''SEQ'', ''--SEQ''), (''XSEQ'', ''--XSEQ'')],
         ix_sorted_suffixes = [''XSEQ'', ''SEQ''],
         ix_compiled_patterns = []\<rparr>
        \<lparr>name = ''AEXSEQ'', dataset = ''ADAE''\<rparr>
      = Inr ((Suffix, ''AEXSEQ'', ''ADAE'', ''--XSEQ'') # rest, m))"
proof -
  let ?cvs = "[\<lparr>name = ''--SEQ'', dataset = ''OCCDS''\<rparr>, \<lparr>name = ''--XSEQ'', dataset = ''OCCDS''\<rparr>]"
  let ?idx = "\<lparr>ix_class_var_names = {''--SEQ'', ''--XSEQ''},
            ix_suffix_lookup = [(''SEQ'', ''--SEQ''), (''XSEQ'', ''--XSEQ'')],
            ix_sorted_suffixes = [''XSEQ'', ''SEQ''],
            ix_compiled_patterns = []\<rparr>"
  let ?var = "\<lparr>name = ''AEXSEQ'', dataset = ''ADAE''\<rparr>"
  have b: "build_index ?cvs = Inr ?idx" by code_simp
  have e: "endswith ''AEXSEQ'' (CHR ''X'' # ''SEQ'')" by code_simp
  have r1: "''--'' @ ''SEQ'' \<in> set (map name ?cvs)" by simp
  have r2: "''--'' @ CHR ''X'' # ''SEQ'' \<in> set (map name ?cvs)" by simp
  have lng: "\<forall>k \<in> set (map fst (ix_suffix_lookup ?idx)).
      endswith ''AEXSEQ'' k \<longrightarrow> length k \<le> length (CHR ''X'' # ''SEQ'')"
    by simp
  have nv: "name ?var = ''AEXSEQ''" and nx: "''AEXSEQ'' \<notin> set (map name ?cvs)" by simp_all
  from suffix_tier_longest_first [of ?cvs ?idx "''AEXSEQ''" "''SEQ''" "CHR ''X''" ?var loaded_database,
      THEN mp, OF b] r1 r2 e
  obtain s where s: "suffix_tier (ix_suffix_lookup ?idx) (ix_sorted_suffixes ?idx) ''AEXSEQ''
        = Inr (Some (''--'' @ s))"
      "(\<forall>k \<in> set (map fst (ix_suffix_lookup ?idx)).
          endswith ''AEXSEQ'' k \<longrightarrow> length k \<le> length (CHR ''X'' # ''SEQ'')) \<longrightarrow> s = CHR ''X'' # ''SEQ''"
      "name ?var = ''AEXSEQ'' \<longrightarrow> ''AEXSEQ'' \<notin> set (map name ?cvs) \<longrightarrow>
         (\<exists>rest m. classify loaded_database ?idx ?var =
            Inr ((Suffix, ''AEXSEQ'', dataset ?var, ''--'' @ s) # rest, m))"
    by blast
  from s(2) lng have eq: "s = ''XSEQ''" by blast
  from s(1) eq have t: "suffix_tier [(''SEQ'', ''--SEQ''), (''XSEQ'', ''--XSEQ'')] [''XSEQ'', ''SEQ''] ''AEXSEQ''
     = Inr (Some ''--XSEQ'')" by simp
  from s(3) nv nx eq have c: "\<exists>rest m. classify loaded_database ?idx ?var
      = Inr ((Suffix, ''AEXSEQ'', ''ADAE'', ''--XSEQ'') # rest, m)" by simp
  from b e t c show ?thesis by simp
qed

text \<open>
  Claim C4. With the catalogue \<open>["TRTxxP"]\<close> the pattern tier answers for a name
  \<open>TRT\<close>, any string, \<open>P\<close> exactly when the string is two digits: one digit or three at
  that place give no match. With the catalogue \<open>["AGEGRy"]\<close> it answers for \<open>AGEGR\<close>
  followed by digits exactly when there is at least one digit, however many there are.
  In a run of the whole function, \<open>TRT01P\<close> and \<open>AGEGR12\<close> lead to one call, from the
  pattern tier, with the template as class variable; \<open>TRT1P\<close> and \<open>AGEGR\<close> lead to no
  call at all.
\<close>

theorem slot_widths:
  "(\<exists>idx. build_index [\<lparr>name = ''TRTxxP'', dataset = cd\<rparr>] = Inr idx \<and>
      (\<forall>ds. pattern_tier (ix_compiled_patterns idx) (''TRT'' @ ds @ ''P'') =
           (if length ds = 2 \<and> list_all is_digit ds then Some ''TRTxxP'' else None))) \<and>
   (\<exists>idx. build_index [\<lparr>name = ''AGEGRy'', dataset = cd\<rparr>] = Inr idx \<and>
      (\<forall>ds. list_all is_digit ds \<longrightarrow>
           pattern_tier (ix_compiled_patterns idx) (''AGEGR'' @ ds) =
             (if ds \<noteq> [] then Some ''AGEGRy'' else None))) \<and>
   (\<exists>n. create_of_class_relationships session
           [\<lparr>name = ''TRT01P'', dataset = d\<rparr>] [\<lparr>name = ''TRTxxP'', dataset = cd\<rparr>]
         = Inr \<lparr>printed = [Creating_of_class_relationships, Created_of_class_relationships n],
                session_calls = [(Pattern, ''TRT01P'', d, ''TRTxxP'')]\<rparr>) \<and>
   create_of_class_relationships session
       [\<lparr>name = ''TRT1P'', dataset = d\<rparr>] [\<lparr>name = ''TRTxxP'', dataset = cd\<rparr>]
     = Inr \<lparr>printed = [Creating_of_class_relationships, Created_of_class_relationships 0],
            session_calls = []\<rparr> \<and>
   (\<exists>n. create_of_class_relationships session
           [\<lparr>name = ''AGEGR12'', dataset = d\<rparr>] [\<lparr>name = ''AGEGRy'', dataset = cd\<rparr>]
         = Inr \<lparr>printed = [Creating_of_class_relationships, Created_of_class_relationships n],
                session_calls = [(Pattern, ''AGEGR12'', d, ''AGEGRy'')]\<rparr>) \<and>
   create_of_class_relationships session
       [\<lparr>name = ''AGEGR'', dataset = d\<rparr>] [\<lparr>name = ''AGEGRy'', dataset = cd\<rparr>]
     = Inr \<lparr>printed = [Creating_of_class_relationships, Created_of_class_relationships 0],
            session_calls = []\<rparr>"
proof -
  let ?trt = "At_beginning # map item_of (tokenize ''TRTxxP'') @ [At_end]"
  let ?age = "At_beginning # map item_of (tokenize ''AGEGRy'') @ [At_end]"
  have a: "\<exists>idx. build_index [\<lparr>name = ''TRTxxP'', dataset = cd\<rparr>] = Inr idx \<and>
      (\<forall>ds. pattern_tier (ix_compiled_patterns idx) (''TRT'' @ ds @ ''P'') =
           (if length ds = 2 \<and> list_all is_digit ds then Some ''TRTxxP'' else None))"
    using trt_match
    by (simp add: build_index_single_pattern [OF trt_template] del: re_matches.simps tokenize.simps)
  have b: "\<exists>idx. build_index [\<lparr>name = ''AGEGRy'', dataset = cd\<rparr>] = Inr idx \<and>
      (\<forall>ds. list_all is_digit ds \<longrightarrow>
           pattern_tier (ix_compiled_patterns idx) (''AGEGR'' @ ds) =
             (if ds \<noteq> [] then Some ''AGEGRy'' else None))"
    using agegr_match
    by (simp add: build_index_single_pattern [OF agegr_template] del: re_matches.simps tokenize.simps)
  have m1: "pattern_match ?trt ''TRT01P''"
    using trt_match [of "''01''"] by (simp add: is_digit_def del: re_matches.simps tokenize.simps)
  have m2: "\<not> pattern_match ?trt ''TRT1P''"
    using trt_match [of "''1''"] by (simp del: re_matches.simps tokenize.simps)
  have m3: "pattern_match ?age ''AGEGR12''"
    using agegr_match [of "''12''"] by (simp add: is_digit_def del: re_matches.simps tokenize.simps)
  have m4: "\<not> pattern_match ?age ''AGEGR''"
    using agegr_match [of "[]"] by (simp del: re_matches.simps tokenize.simps)
  have c1: "\<exists>n. create_of_class_relationships session
           [\<lparr>name = ''TRT01P'', dataset = d\<rparr>] [\<lparr>name = ''TRTxxP'', dataset = cd\<rparr>]
         = Inr \<lparr>printed = [Creating_of_class_relationships, Created_of_class_relationships n],
                session_calls = [(Pattern, ''TRT01P'', d, ''TRTxxP'')]\<rparr>"
    using m1 by (simp add: single_pattern_run [OF trt_template] del: re_matches.simps tokenize.simps)
  have c2: "create_of_class_relationships session
       [\<lparr>name = ''TRT1P'', dataset = d\<rparr>] [\<lparr>name = ''TRTxxP'', dataset = cd\<rparr>]
     = Inr \<lparr>printed = [Creating_of_class_relationships, Created_of_class_relationships 0],
            session_calls = []\<rparr>"
    using m2 by (simp add: single_pattern_run [OF trt_template] del: re_matches.simps tokenize.simps)
  have c3: "\<exists>n. create_of_class_relationships session
           [\<lparr>name = ''AGEGR12'', dataset = d\<rparr>] [\<lparr>name = ''AGEGRy'', dataset = cd\<rparr>]
         = Inr \<lparr>printed = [Creating_of_class_relationships, Created_of_class_relationships n],
                session_calls = [(Pattern, ''AGEGR12'', d, ''AGEGRy'')]\<rparr>"
    using m3 by (simp add: single_pattern_run [OF agegr_template] del: re_matches.simps tokenize.simps)
  have c4: "create_of_class_relationships session
       [\<lparr>name = ''AGEGR'', dataset = d\<rparr>] [\<lparr>name = ''AGEGRy'', dataset = cd\<rparr>]
     = Inr \<lparr>printed = [Creating_of_class_relationships, Created_of_class_relationships 0],
            session_calls = []\<rparr>"
    using m4 by (simp add: single_pattern_run [OF agegr_template] del: re_matches.simps tokenize.simps)
  from a b c1 c2 c3 c4 show ?thesis by blast
qed


theorem slot_widths_witness:
  "list_all is_digit ''12'' \<and>
   (\<exists>idx. build_index [\<lparr>name = ''AGEGRy'', dataset = ''ADSL''\<rparr>] = Inr idx \<and>
      pattern_tier (ix_compiled_patterns idx) ''AGEGR12'' = Some ''AGEGRy'') \<and>
   (\<exists>idx. build_index [\<lparr>name = ''TRTxxP'', dataset = ''ADSL''\<rparr>] = Inr idx \<and>
      pattern_tier (ix_compiled_patterns idx) ''TRT01P'' = Some ''TRTxxP'' \<and>
      pattern_tier (ix_compiled_patterns idx) ''TRT1P'' = None \<and>
      pattern_tier (ix_compiled_patterns idx) ''TRT001P'' = None) \<and>
   (\<exists>n. create_of_class_relationships loaded_database
           [\<lparr>name = ''AGEGR12'', dataset = ''ADSL''\<rparr>] [\<lparr>name = ''AGEGRy'', dataset = ''ADSL''\<rparr>]
         = Inr \<lparr>printed = [Creating_of_class_relationships, Created_of_class_relationships n],
                session_calls = [(Pattern, ''AGEGR12'', ''ADSL'', ''AGEGRy'')]\<rparr>)"
proof -
  note inst = slot_widths [of "''ADSL''" loaded_database "''ADSL''"]
  have d: "list_all is_digit ''12''" by (simp add: is_digit_def)
  from inst obtain idx where idx: "build_index [\<lparr>name = ''AGEGRy'', dataset = ''ADSL''\<rparr>] = Inr idx"
      "\<forall>ds. list_all is_digit ds \<longrightarrow>
           pattern_tier (ix_compiled_patterns idx) (''AGEGR'' @ ds) =
             (if ds \<noteq> [] then Some ''AGEGRy'' else None)"
    by blast
  from idx(2) [rule_format, OF d]
  have "pattern_tier (ix_compiled_patterns idx) ''AGEGR12'' = Some ''AGEGRy''" by simp
  with idx(1) have a: "\<exists>idx. build_index [\<lparr>name = ''AGEGRy'', dataset = ''ADSL''\<rparr>] = Inr idx \<and>
      pattern_tier (ix_compiled_patterns idx) ''AGEGR12'' = Some ''AGEGRy''" by blast
  from inst obtain idx' where idx': "build_index [\<lparr>name = ''TRTxxP'', dataset = ''ADSL''\<rparr>] = Inr idx'"
      "\<forall>ds. pattern_tier (ix_compiled_patterns idx') (''TRT'' @ ds @ ''P'') =
           (if length ds = 2 \<and> list_all is_digit ds then Some ''TRTxxP'' else None)"
    by blast
  from idx'(2) [rule_format, of "''01''"] idx'(2) [rule_format, of "''1''"]
    idx'(2) [rule_format, of "''001''"]
  have "pattern_tier (ix_compiled_patterns idx') ''TRT01P'' = Some ''TRTxxP'' \<and>
      pattern_tier (ix_compiled_patterns idx') ''TRT1P'' = None \<and>
      pattern_tier (ix_compiled_patterns idx') ''TRT001P'' = None"
    by (simp add: is_digit_def)
  with idx'(1) have b: "\<exists>idx. build_index [\<lparr>name = ''TRTxxP'', dataset = ''ADSL''\<rparr>] = Inr idx \<and>
      pattern_tier (ix_compiled_patterns idx) ''TRT01P'' = Some ''TRTxxP'' \<and>
      pattern_tier (ix_compiled_patterns idx) ''TRT1P'' = None \<and>
      pattern_tier (ix_compiled_patterns idx) ''TRT001P'' = None" by blast
  from inst have c: "\<exists>n. create_of_class_relationships loaded_database
           [\<lparr>name = ''AGEGR12'', dataset = ''ADSL''\<rparr>] [\<lparr>name = ''AGEGRy'', dataset = ''ADSL''\<rparr>]
         = Inr \<lparr>printed = [Creating_of_class_relationships, Created_of_class_relationships n],
                session_calls = [(Pattern, ''AGEGR12'', ''ADSL'', ''AGEGRy'')]\<rparr>"
    by blast
  from d a b c show ?thesis by blast
qed

text \<open>
  Claim C5, as the code has it. The suffix map has one entry for each suffix, at the
  place of the first template that reduces to it and with the name of the last one:
  the later definition wins. Nothing else records the collision: the function has no
  branch that raises, and a run that returns has printed its two progress lines and no
  warning.
\<close>

theorem suffix_collision_later_wins_silently:
  "distinct (map fst (build_suffix_lookup cvs)) \<and>
   map fst (build_suffix_lookup cvs) = first_occurrences (map (drop 2) (suffix_templates cvs)) \<and>
   map_of (build_suffix_lookup cvs) k =
     List.find (\<lambda>var_name. drop 2 var_name = k) (rev (suffix_templates cvs)) \<and>
   (create_of_class_relationships session vars cvs = Inr out \<longrightarrow>
      (\<exists>n. printed out = [Creating_of_class_relationships, Created_of_class_relationships n]))"
proof -
  have "map_of (build_suffix_lookup cvs) k =
        List.find (\<lambda>var_name. drop 2 var_name = k) (rev (suffix_templates cvs))"
    by (simp add: build_suffix_lookup_def suffix_loop_updates updates_map_of_empty)
  then show ?thesis
    using suffix_lookup_distinct [of cvs] suffix_lookup_keys [of cvs]
      create_printed [of session vars cvs out]
    by blast
qed

theorem suffix_collision_later_wins_silently_witness:
  "create_of_class_relationships loaded_database
     [\<lparr>name = ''AESEQ'', dataset = ''ADAE''\<rparr>]
     [\<lparr>name = ''--SEQ'', dataset = ''OCCDS''\<rparr>, \<lparr>name = ''--TERM'', dataset = ''OCCDS''\<rparr>,
      \<lparr>name = ''--SEQ'', dataset = ''BDS''\<rparr>]
    = Inr \<lparr>printed = [Creating_of_class_relationships, Created_of_class_relationships 1],
           session_calls = [(Suffix, ''AESEQ'', ''ADAE'', ''--SEQ'')]\<rparr> \<and>
   (\<exists>n. printed \<lparr>printed = [Creating_of_class_relationships, Created_of_class_relationships 1],
           session_calls = [(Suffix, ''AESEQ'', ''ADAE'', ''--SEQ'')]\<rparr>
     = [Creating_of_class_relationships, Created_of_class_relationships n])"
proof -
  let ?vars = "[\<lparr>name = ''AESEQ'', dataset = ''ADAE''\<rparr>]"
  let ?cvs = "[\<lparr>name = ''--SEQ'', dataset = ''OCCDS''\<rparr>, \<lparr>name = ''--TERM'', dataset = ''OCCDS''\<rparr>,
      \<lparr>name = ''--SEQ'', dataset = ''BDS''\<rparr>]"
  let ?out = "\<lparr>printed = [Creating_of_class_relationships, Created_of_class_relationships 1],
           session_calls = [(Suffix, ''AESEQ'', ''ADAE'', ''--SEQ'')]\<rparr>"
  have r: "create_of_class_relationships loaded_database ?vars ?cvs = Inr ?out"
    by code_simp
  from suffix_collision_later_wins_silently [of ?cvs "''SEQ''" loaded_database ?vars ?out] r
  have "\<exists>n. printed ?out = [Creating_of_class_relationships, Created_of_class_relationships n]"
    by blast
  with r show ?thesis by blast
qed

text \<open>
  Claim C5 as stated fails: two class variables that reduce to the suffix \<open>SEQ\<close> leave
  one entry, and the run prints only the two progress lines; the collision is
  overwritten silently.
\<close>

theorem suffix_collision_unflagged_counterexample:
  "build_suffix_lookup
     [\<lparr>name = ''--SEQ'', dataset = ''OCCDS''\<rparr>, \<lparr>name = ''--SEQ'', dataset = ''BDS''\<rparr>]
    = [(''SEQ'', ''--SEQ'')] \<and>
   create_of_class_relationships loaded_database
     [\<lparr>name = ''AESEQ'', dataset = ''ADAE''\<rparr>]
     [\<lparr>name = ''--SEQ'', dataset = ''OCCDS''\<rparr>, \<lparr>name = ''--SEQ'', dataset = ''BDS''\<rparr>]
    = Inr \<lparr>printed = [Creating_of_class_relationships, Created_of_class_relationships 1],
           session_calls = [(Suffix, ''AESEQ'', ''ADAE'', ''--SEQ'')]\<rparr>"
  by code_simp

text \<open>
  Claim C6. The pattern tier goes through the compiled patterns in the order of the
  dictionary and answers with the class variable of the first pattern that matches the
  name; later patterns are not looked at. The dictionary holds the regular expressions
  of the placeholder templates in catalogue order, each at the place of its first
  occurrence (when the expressions are pairwise different, one entry for each template,
  in catalogue order), and the compiled dictionary has the same entries in the same
  order. A call from the pattern tier always carries the answer of this search, and for
  a name that neither the exact set nor a suffix catches it is the only call.
\<close>

theorem pattern_tier_first_match:
  "pattern_tier cps v = map_option snd (List.find (\<lambda>(p, n). pattern_match p v) cps) \<and>
   map fst (fst (build_pattern_lookup cvs)) =
     first_occurrences (map template_regex (pattern_templates cvs)) \<and>
   (distinct (map template_regex (pattern_templates cvs)) \<longrightarrow>
      fst (build_pattern_lookup cvs) = map (\<lambda>n. (template_regex n, n)) (pattern_templates cvs)) \<and>
   (build_index cvs = Inr idx \<longrightarrow>
      list_all2 (\<lambda>(p, n) (c, m). re_compile p = Inr c \<and> m = n)
        (fst (build_pattern_lookup cvs)) (ix_compiled_patterns idx) \<and>
      (\<forall>cs m d t. classify session idx var = Inr (cs, m) \<longrightarrow> (Pattern, name var, d, t) \<in> set cs \<longrightarrow>
         pattern_tier (ix_compiled_patterns idx) (name var) = Some t) \<and>
      (name var \<notin> set (map name cvs) \<longrightarrow>
       List.find (endswith (name var)) (ix_sorted_suffixes idx) = None \<longrightarrow>
         classify session idx var =
           Inr (case pattern_tier (ix_compiled_patterns idx) (name var) of
                  None \<Rightarrow> ([], False)
                | Some t \<Rightarrow> ([(Pattern, name var, dataset var, t)],
                             confirmed (session (name var) (dataset var) t)))))"
proof -
  have "list_all2 (\<lambda>(p, n) (c, m). re_compile p = Inr c \<and> m = n)
          (fst (build_pattern_lookup cvs)) (ix_compiled_patterns idx)"
    if "build_index cvs = Inr idx"
    using compile_patterns_Inr [OF build_index_Inr(4) [OF that]] .
  moreover have "classify session idx var =
           Inr (case pattern_tier (ix_compiled_patterns idx) (name var) of
                  None \<Rightarrow> ([], False)
                | Some t \<Rightarrow> ([(Pattern, name var, dataset var, t)],
                             confirmed (session (name var) (dataset var) t)))"
    if "build_index cvs = Inr idx" "name var \<notin> set (map name cvs)"
       "List.find (endswith (name var)) (ix_sorted_suffixes idx) = None"
    using classify_no_exact [OF that(1,2), of session] that(3) by simp
  ultimately show ?thesis
    using pattern_tier_find [of cps v] pattern_lookup_keys [of cvs]
      pattern_lookup_distinct_regexes [of cvs] classify_pattern_call [of session idx var]
    by blast
qed


theorem pattern_tier_first_match_witness:
  "build_index [\<lparr>name = ''TRTxxP'', dataset = ''ADSL''\<rparr>, \<lparr>name = ''TRTyP'', dataset = ''ADSL''\<rparr>]
     = Inr \<lparr>ix_class_var_names = {''TRTxxP'', ''TRTyP''},
            ix_suffix_lookup = [],
            ix_sorted_suffixes = [],
            ix_compiled_patterns =
              [([At_beginning, Repeat (Lit CHR ''T'') 1 (Some 1), Repeat (Lit CHR ''R'') 1 (Some 1),
                 Repeat (Lit CHR ''T'') 1 (Some 1), Repeat Digit 2 (Some 2),
                 Repeat (Lit CHR ''P'') 1 (Some 1), At_end], ''TRTxxP''),
               ([At_beginning, Repeat (Lit CHR ''T'') 1 (Some 1), Repeat (Lit CHR ''R'') 1 (Some 1),
                 Repeat (Lit CHR ''T'') 1 (Some 1), Repeat Digit 1 None,
                 Repeat (Lit CHR ''P'') 1 (Some 1), At_end], ''TRTyP'')]\<rparr> \<and>
   distinct (map template_regex (pattern_templates
     [\<lparr>name = ''TRTxxP'', dataset = ''ADSL''\<rparr>, \<lparr>name = ''TRTyP'', dataset = ''ADSL''\<rparr>])) \<and>
   fst (build_pattern_lookup
     [\<lparr>name = ''TRTxxP'', dataset = ''ADSL''\<rparr>, \<lparr>name = ''TRTyP'', dataset = ''ADSL''\<rparr>])
     = [(template_regex ''TRTxxP'', ''TRTxxP''), (template_regex ''TRTyP'', ''TRTyP'')] \<and>
   classify loaded_database
     \<lparr>ix_class_var_names = {''TRTxxP'', ''TRTyP''},
      ix_suffix_lookup = [],
      ix_sorted_suffixes = [],
      ix_compiled_patterns =
        [([At_beginning, Repeat (Lit CHR ''T'') 1 (Some 1), Repeat (Lit CHR ''R'') 1 (Some 1),
           Repeat (Lit CHR ''T'') 1 (Some 1), Repeat Digit 2 (Some 2),
           Repeat (Lit CHR ''P'') 1 (Some 1), At_end], ''TRTxxP''),
         ([At_beginning, Repeat (Lit CHR ''T'') 1 (Some 1), Repeat (Lit CHR ''R'') 1 (Some 1),
           Repeat (Lit CHR ''T'') 1 (Some 1), Repeat Digit 1 None,
           Repeat (Lit CHR ''P'') 1 (Some 1), At_end], ''TRTyP'')]\<rparr>
     \<lparr>name = ''TRT01P'', dataset = ''ADSL''\<rparr>
     = Inr ([(Pattern, ''TRT01P'', ''ADSL'', ''TRTxxP'')], True)"
proof -
  let ?cvs = "[\<lparr>name = ''TRTxxP'', dataset = ''ADSL''\<rparr>, \<lparr>name = ''TRTyP'', dataset = ''ADSL''\<rparr>]"
  let ?cps = "[([At_beginning, Repeat (Lit CHR ''T'') 1 (Some 1), Repeat (Lit CHR ''R'') 1 (Some 1),
           Repeat (Lit CHR ''T'') 1 (Some 1), Repeat Digit 2 (Some 2),
           Repeat (Lit CHR ''P'') 1 (Some 1), At_end], ''TRTxxP''),
         ([At_beginning, Repeat (Lit CHR ''T'') 1 (Some 1), Repeat (Lit CHR ''R'') 1 (Some 1),
           Repeat (Lit CHR ''T'') 1 (Some 1), Repeat Digit 1 None,
           Repeat (Lit CHR ''P'') 1 (Some 1), At_end], ''TRTyP'')]"
  let ?idx = "\<lparr>ix_class_var_names = {''TRTxxP'', ''TRTyP''}, ix_suffix_lookup = [],
      ix_sorted_suffixes = [], ix_compiled_patterns = ?cps\<rparr>"
  let ?var = "\<lparr>name = ''TRT01P'', dataset = ''ADSL''\<rparr>"
  have b: "build_index ?cvs = Inr ?idx" by code_simp
  have pt: "pattern_templates ?cvs = [''TRTxxP'', ''TRTyP'']" by code_simp
  have d: "distinct (map template_regex (pattern_templates ?cvs))"
    unfolding pt by code_simp
  have nx: "name ?var \<notin> set (map name ?cvs)" by simp
  have nf: "List.find (endswith (name ?var)) (ix_sorted_suffixes ?idx) = None" by simp
  have hit: "pattern_tier ?cps ''TRT01P'' = Some ''TRTxxP''" by code_simp
  have ok: "confirmed (loaded_database ''TRT01P'' ''ADSL'' ''TRTxxP'')"
    by (simp add: confirmed_def loaded_database_def)
  note inst = pattern_tier_first_match [of ?cps "''TRT01P''" ?cvs ?idx loaded_database ?var]
  have l: "fst (build_pattern_lookup ?cvs)
     = [(template_regex ''TRTxxP'', ''TRTxxP''), (template_regex ''TRTyP'', ''TRTyP'')]"
    using inst [THEN conjunct2, THEN conjunct2, THEN conjunct1, THEN mp, OF d] by (simp add: pt)
  have c: "classify loaded_database ?idx ?var = Inr ([(Pattern, ''TRT01P'', ''ADSL'', ''TRTxxP'')], True)"
    using inst [THEN conjunct2, THEN conjunct2, THEN conjunct2, THEN mp, OF b,
        THEN conjunct2, THEN conjunct2, THEN mp, OF nx, THEN mp, OF nf] hit ok
    by simp
  from b d l c show ?thesis by simp
qed

text \<open>
  Claim C7, as the code has it. \<open>build_pattern_lookup\<close> skips no template: every class
  variable that does not start with \<open>--\<close> and has a lowercase letter contributes its
  regular expression. If one of these expressions is rejected and the others are inside
  the modelled fragment, \<open>re.compile\<close> raises at line 497 and the whole run ends with
  that error. If every such template is free of
  regular-expression metacharacters, the run completes and prints its two progress
  lines, no warning among them.
\<close>

theorem no_template_is_skipped:
  "set (map fst (fst (build_pattern_lookup cvs))) = template_regex ` set (pattern_templates cvs) \<and>
   ((\<exists>n \<in> set (pattern_templates cvs). re_compile (template_regex n) = Inl Re_error) \<longrightarrow>
    (\<forall>n \<in> set (pattern_templates cvs). re_compile (template_regex n) \<noteq> Inl Unmodelled) \<longrightarrow>
      create_of_class_relationships session vars cvs = Inl Re_error) \<and>
   ((\<forall>n \<in> set (pattern_templates cvs). plain n) \<longrightarrow>
      (\<exists>out n. create_of_class_relationships session vars cvs = Inr out \<and>
         printed out = [Creating_of_class_relationships, Created_of_class_relationships n]))"
proof -
  have fatal: "create_of_class_relationships session vars cvs = Inl Re_error"
    if "\<exists>n \<in> set (pattern_templates cvs). re_compile (template_regex n) = Inl Re_error"
       "\<forall>n \<in> set (pattern_templates cvs). re_compile (template_regex n) \<noteq> Inl Unmodelled"
    using build_index_re_error [OF that] by (simp add: create_of_class_relationships_def)
  have fine: "\<exists>out n. create_of_class_relationships session vars cvs = Inr out \<and>
         printed out = [Creating_of_class_relationships, Created_of_class_relationships n]"
    if "\<forall>n \<in> set (pattern_templates cvs). plain n"
  proof -
    from build_index_plain [OF that] obtain idx where "build_index cvs = Inr idx" ..
    from create_returns [OF this] obtain out
      where "create_of_class_relationships session vars cvs = Inr out" ..
    with create_printed [OF this] show ?thesis by blast
  qed
  from pattern_lookup_key_set [of cvs] fatal fine show ?thesis by blast
qed

theorem no_template_is_skipped_witness:
  "pattern_templates [\<lparr>name = ''USUBJID'', dataset = ''ADSL''\<rparr>,
                      \<lparr>name = ''TRTxxP)'', dataset = ''ADSL''\<rparr>] = [''TRTxxP)''] \<and>
   re_compile (template_regex ''TRTxxP)'') = Inl Re_error \<and>
   create_of_class_relationships loaded_database [\<lparr>name = ''USUBJID'', dataset = ''ADSL''\<rparr>]
       [\<lparr>name = ''USUBJID'', dataset = ''ADSL''\<rparr>, \<lparr>name = ''TRTxxP)'', dataset = ''ADSL''\<rparr>]
     = Inl Re_error \<and>
   pattern_templates [\<lparr>name = ''USUBJID'', dataset = ''ADSL''\<rparr>,
                      \<lparr>name = ''TRTxxP'', dataset = ''ADSL''\<rparr>] = [''TRTxxP''] \<and>
   plain ''TRTxxP'' \<and>
   (\<exists>out n. create_of_class_relationships loaded_database [\<lparr>name = ''TRT01P'', dataset = ''ADSL''\<rparr>]
           [\<lparr>name = ''USUBJID'', dataset = ''ADSL''\<rparr>, \<lparr>name = ''TRTxxP'', dataset = ''ADSL''\<rparr>]
         = Inr out \<and>
       printed out = [Creating_of_class_relationships, Created_of_class_relationships n])"
proof -
  let ?bad = "[\<lparr>name = ''USUBJID'', dataset = ''ADSL''\<rparr>, \<lparr>name = ''TRTxxP)'', dataset = ''ADSL''\<rparr>]"
  let ?good = "[\<lparr>name = ''USUBJID'', dataset = ''ADSL''\<rparr>, \<lparr>name = ''TRTxxP'', dataset = ''ADSL''\<rparr>]"
  have pb: "pattern_templates ?bad = [''TRTxxP)'']" by code_simp
  have pg: "pattern_templates ?good = [''TRTxxP'']" by code_simp
  have e: "re_compile (template_regex ''TRTxxP)'') = Inl Re_error" by code_simp
  have h1: "\<exists>n \<in> set (pattern_templates ?bad). re_compile (template_regex n) = Inl Re_error"
    using e by (simp add: pb)
  have h1': "\<forall>n \<in> set (pattern_templates ?bad). re_compile (template_regex n) \<noteq> Inl Unmodelled"
    using e by (simp add: pb)
  have h2: "\<forall>n \<in> set (pattern_templates ?good). plain n"
    by (simp add: pg plain_def special_char_def)
  note bad = no_template_is_skipped [of ?bad loaded_database "[\<lparr>name = ''USUBJID'', dataset = ''ADSL''\<rparr>]",
      THEN conjunct2, THEN conjunct1, THEN mp, OF h1, THEN mp, OF h1']
  note good = no_template_is_skipped [of ?good loaded_database "[\<lparr>name = ''TRT01P'', dataset = ''ADSL''\<rparr>]",
      THEN conjunct2, THEN conjunct2, THEN mp, OF h2]
  have p: "plain ''TRTxxP''" by (simp add: plain_def special_char_def)
  from pb pg e p bad good show ?thesis by blast
qed

text \<open>
  Claim C7 as stated fails: the template \<open>TRTxxP)\<close> is not skipped, its expression has
  an unbalanced parenthesis, and the run ends with the error before any variable is
  classified.
\<close>

theorem uncompilable_template_is_fatal_counterexample:
  "create_of_class_relationships loaded_database
     [\<lparr>name = ''USUBJID'', dataset = ''ADSL''\<rparr>, \<lparr>name = ''AESEQ'', dataset = ''ADAE''\<rparr>]
     [\<lparr>name = ''USUBJID'', dataset = ''ADSL''\<rparr>, \<lparr>name = ''TRTxxP)'', dataset = ''ADSL''\<rparr>,
      \<lparr>name = ''--SEQ'', dataset = ''OCCDS''\<rparr>]
    = Inl Re_error \<and>
   fst (build_pattern_lookup
     [\<lparr>name = ''USUBJID'', dataset = ''ADSL''\<rparr>, \<lparr>name = ''TRTxxP)'', dataset = ''ADSL''\<rparr>,
      \<lparr>name = ''--SEQ'', dataset = ''OCCDS''\<rparr>])
    = [(''^TRT'' @ two_digits @ ''P)$'', ''TRTxxP)'')]"
  by code_simp

text \<open>
  Claim C8, as the code has it. Every key of the suffix map is the name of its template
  without the two leading characters, and the template is a class variable of the
  catalogue; the key is empty exactly for the template \<open>--\<close>, so the map has an empty
  key exactly when the catalogue contains that name.
\<close>

theorem suffix_keys_drop_marker:
  "(\<forall>(k, t) \<in> set (build_suffix_lookup cvs).
      t \<in> set (map name cvs) \<and> t = ''--'' @ k \<and> (k = [] \<longleftrightarrow> t = ''--'')) \<and>
   ([] \<in> set (map fst (build_suffix_lookup cvs)) \<longleftrightarrow> ''--'' \<in> set (map name cvs))"
proof -
  have entries: "t \<in> set (map name cvs) \<and> t = ''--'' @ k \<and> (k = [] \<longleftrightarrow> t = ''--'')"
    if "(k, t) \<in> set (build_suffix_lookup cvs)" for k t
    using that unfolding suffix_lookup_entry by auto
  have "[] \<in> set (map fst (build_suffix_lookup cvs)) \<longleftrightarrow>
        (\<exists>t. ([], t) \<in> set (build_suffix_lookup cvs))"
    by force
  also have "\<dots> \<longleftrightarrow> ''--'' \<in> set (map name cvs)"
    unfolding suffix_lookup_entry by simp
  finally show ?thesis using entries by blast
qed

theorem suffix_keys_drop_marker_witness:
  "build_suffix_lookup [\<lparr>name = ''--SEQ'', dataset = ''OCCDS''\<rparr>, \<lparr>name = ''PARAMCD'', dataset = ''BDS''\<rparr>]
     = [(''SEQ'', ''--SEQ'')] \<and>
   ''--SEQ'' \<in> set (map name [\<lparr>name = ''--SEQ'', dataset = ''OCCDS''\<rparr>, \<lparr>name = ''PARAMCD'', dataset = ''BDS''\<rparr>]) \<and>
   [] \<notin> set (map fst (build_suffix_lookup
      [\<lparr>name = ''--SEQ'', dataset = ''OCCDS''\<rparr>, \<lparr>name = ''PARAMCD'', dataset = ''BDS''\<rparr>]))"
proof -
  let ?cvs = "[\<lparr>name = ''--SEQ'', dataset = ''OCCDS''\<rparr>, \<lparr>name = ''PARAMCD'', dataset = ''BDS''\<rparr>]"
  have b: "build_suffix_lookup ?cvs = [(''SEQ'', ''--SEQ'')]" by code_simp
  have e: "(''SEQ'', ''--SEQ'') \<in> set (build_suffix_lookup ?cvs)" by (simp add: b)
  have m: "''--SEQ'' \<in> set (map name ?cvs)"
    using suffix_keys_drop_marker [of ?cvs, THEN conjunct1, rule_format, OF e] by simp
  have n: "[] \<notin> set (map fst (build_suffix_lookup ?cvs))"
    using suffix_keys_drop_marker [of ?cvs, THEN conjunct2] by simp
  from b m n show ?thesis by blast
qed

text \<open>
  Claim C8 as stated fails: the template that is the two-character marker alone is
  registered under the empty suffix.
\<close>

theorem empty_suffix_key_counterexample:
  "build_suffix_lookup [\<lparr>name = ''--'', dataset = ''OCCDS''\<rparr>] = [([], ''--'')]"
  by code_simp

text \<open>
  Claim C9, as the code has it. The exact set is built from every class variable of the
  catalogue, whatever its shape: names that start with \<open>--\<close> and names with
  placeholders are members. A concrete name equal to such a template is sent to the
  exact tier first, and when the database confirms that relationship it is the only
  call: the suffix and pattern tiers are not consulted.
\<close>

theorem exact_set_is_whole_catalogue:
  "snd (build_pattern_lookup cvs) = set (map name cvs) \<and>
   (build_index cvs = Inr idx \<longrightarrow>
      ix_class_var_names idx = set (map name cvs) \<and>
      (name var \<in> set (map name cvs) \<longrightarrow>
       confirmed (session (name var) (dataset var) (name var)) \<longrightarrow>
       classify session idx var = Inr ([(Exact, name var, dataset var, name var)], True)))"
proof -
  have "snd (build_pattern_lookup cvs) = set (map name cvs)"
    by (simp add: build_pattern_lookup_def Let_def)
  moreover have "ix_class_var_names idx = set (map name cvs)" if "build_index cvs = Inr idx"
    using that by (rule build_index_Inr(1))
  moreover have "classify session idx var = Inr ([(Exact, name var, dataset var, name var)], True)"
    if "build_index cvs = Inr idx" "name var \<in> set (map name cvs)"
       "confirmed (session (name var) (dataset var) (name var))"
    using classify_exact_confirmed [of var idx session] build_index_Inr(1) [OF that(1)] that(2,3)
    by simp
  ultimately show ?thesis by blast
qed

theorem exact_set_is_whole_catalogue_witness:
  "build_index [\<lparr>name = ''--SEQ'', dataset = ''OCCDS''\<rparr>, \<lparr>name = ''TRTxxP'', dataset = ''ADSL''\<rparr>]
     = Inr \<lparr>ix_class_var_names = {''--SEQ'', ''TRTxxP''},
            ix_suffix_lookup = [(''SEQ'', ''--SEQ'')],
            ix_sorted_suffixes = [''SEQ''],
            ix_compiled_patterns =
              [([At_beginning, Repeat (Lit CHR ''T'') 1 (Some 1), Repeat (Lit CHR ''R'') 1 (Some 1),
                 Repeat (Lit CHR ''T'') 1 (Some 1), Repeat Digit 2 (Some 2),
                 Repeat (Lit CHR ''P'') 1 (Some 1), At_end], ''TRTxxP'')]\<rparr> \<and>
   confirmed (loaded_database ''--SEQ'' ''ADAE'' ''--SEQ'') \<and>
   confirmed (loaded_database ''TRTxxP'' ''ADSL'' ''TRTxxP'') \<and>
   classify loaded_database
      \<lparr>ix_class_var_names = {''--SEQ'', ''TRTxxP''},
       ix_suffix_lookup = [(''SEQ'', ''--SEQ'')],
       ix_sorted_suffixes = [''SEQ''],
       ix_compiled_patterns =
         [([At_beginning, Repeat (Lit CHR ''T'') 1 (Some 1), Repeat (Lit CHR ''R'') 1 (Some 1),
            Repeat (Lit CHR ''T'') 1 (Some 1), Repeat Digit 2 (Some 2),
            Repeat (Lit CHR ''P'') 1 (Some 1), At_end], ''TRTxxP'')]\<rparr>
      \<lparr>name = ''--SEQ'', dataset = ''ADAE''\<rparr>
     = Inr ([(Exact, ''--SEQ'', ''ADAE'', ''--SEQ'')], True) \<and>
   classify loaded_database
      \<lparr>ix_class_var_names = {''--SEQ'', ''TRTxxP''},
       ix_suffix_lookup = [(''SEQ'', ''--SEQ'')],
       ix_sorted_suffixes = [''SEQ''],
       ix_compiled_patterns =
         [([At_beginning, Repeat (Lit CHR ''T'') 1 (Some 1), Repeat (Lit CHR ''R'') 1 (Some 1),
            Repeat (Lit CHR ''T'') 1 (Some 1), Repeat Digit 2 (Some 2),
            Repeat (Lit CHR ''P'') 1 (Some 1), At_end], ''TRTxxP'')]\<rparr>
      \<lparr>name = ''TRTxxP'', dataset = ''ADSL''\<rparr>
     = Inr ([(Exact, ''TRTxxP'', ''ADSL'', ''TRTxxP'')], True)"
proof -
  let ?cvs = "[\<lparr>name = ''--SEQ'', dataset = ''OCCDS''\<rparr>, \<lparr>name = ''TRTxxP'', dataset = ''ADSL''\<rparr>]"
  let ?idx = "\<lparr>ix_class_var_names = {''--SEQ'', ''TRTxxP''},
       ix_suffix_lookup = [(''SEQ'', ''--SEQ'')],
       ix_sorted_suffixes = [''SEQ''],
       ix_compiled_patterns =
         [([At_beginning, Repeat (Lit CHR ''T'') 1 (Some 1), Repeat (Lit CHR ''R'') 1 (Some 1),
            Repeat (Lit CHR ''T'') 1 (Some 1), Repeat Digit 2 (Some 2),
            Repeat (Lit CHR ''P'') 1 (Some 1), At_end], ''TRTxxP'')]\<rparr>"
  have b: "build_index ?cvs = Inr ?idx" by code_simp
  have c1: "confirmed (loaded_database ''--SEQ'' ''ADAE'' ''--SEQ'')"
    and c2: "confirmed (loaded_database ''TRTxxP'' ''ADSL'' ''TRTxxP'')"
    by (simp_all add: confirmed_def loaded_database_def)
  have inst: "name var \<in> set (map name ?cvs) \<Longrightarrow>
       confirmed (loaded_database (name var) (dataset var) (name var)) \<Longrightarrow>
       classify loaded_database ?idx var = Inr ([(Exact, name var, dataset var, name var)], True)"
    for var :: variable
    using exact_set_is_whole_catalogue [of ?cvs ?idx var loaded_database] b by blast
  have k1: "classify loaded_database ?idx \<lparr>name = ''--SEQ'', dataset = ''ADAE''\<rparr>
     = Inr ([(Exact, ''--SEQ'', ''ADAE'', ''--SEQ'')], True)"
    using inst [of "\<lparr>name = ''--SEQ'', dataset = ''ADAE''\<rparr>"] c1 by simp
  have k2: "classify loaded_database ?idx \<lparr>name = ''TRTxxP'', dataset = ''ADSL''\<rparr>
     = Inr ([(Exact, ''TRTxxP'', ''ADSL'', ''TRTxxP'')], True)"
    using inst [of "\<lparr>name = ''TRTxxP'', dataset = ''ADSL''\<rparr>"] c2 by simp
  from b c1 c2 k1 k2 show ?thesis by simp
qed

text \<open>
  Claim C9 as stated fails: on a database that holds no node, the concrete name
  \<open>--SEQ\<close> goes through the exact tier unconfirmed and is then sent through the suffix
  tier, whose suffix \<open>SEQ\<close> it ends with.
\<close>

theorem template_names_unconfirmed_counterexample:
  "create_of_class_relationships empty_database
     [\<lparr>name = ''--SEQ'', dataset = ''ADAE''\<rparr>, \<lparr>name = ''TRTxxP'', dataset = ''ADSL''\<rparr>]
     [\<lparr>name = ''--SEQ'', dataset = ''OCCDS''\<rparr>, \<lparr>name = ''TRTxxP'', dataset = ''ADSL''\<rparr>]
   = Inr \<lparr>printed = [Creating_of_class_relationships, Created_of_class_relationships 0],
          session_calls = [(Exact, ''--SEQ'', ''ADAE'', ''--SEQ''),
                           (Suffix, ''--SEQ'', ''ADAE'', ''--SEQ''),
                           (Exact, ''TRTxxP'', ''ADSL'', ''TRTxxP'')]\<rparr>"
  by code_simp

text \<open>
  Claim C10. The pattern dictionary is keyed by the regular expression: its keys are
  pairwise different, and the value under an expression is the last placeholder
  template of the catalogue that has this expression. So when a placeholder template
  \<open>t2\<close> stands in the catalogue after the last occurrence of a different template \<open>t1\<close>
  with the same expression, \<open>t1\<close> is no value of the dictionary and the pattern tier
  never answers \<open>t1\<close>.
\<close>

theorem same_regex_later_template_wins:
  "distinct (map fst (fst (build_pattern_lookup cvs))) \<and>
   ((r, n) \<in> set (fst (build_pattern_lookup cvs)) \<longleftrightarrow>
      List.find (\<lambda>m. template_regex m = r) (rev (pattern_templates cvs)) = Some n) \<and>
   (is_pattern_template (name v2) \<longrightarrow> cvs = pre @ v2 # post \<longrightarrow>
    t1 \<notin> set (map name post) \<longrightarrow> t1 \<noteq> name v2 \<longrightarrow>
    template_regex t1 = template_regex (name v2) \<longrightarrow>
      t1 \<notin> set (map snd (fst (build_pattern_lookup cvs))) \<and>
      (build_index cvs = Inr idx \<longrightarrow> pattern_tier (ix_compiled_patterns idx) v \<noteq> Some t1))"
proof -
  have "pattern_tier (ix_compiled_patterns idx) v \<noteq> Some t1"
    if "t1 \<notin> set (map snd (fst (build_pattern_lookup cvs)))" "build_index cvs = Inr idx"
    using pattern_tier_value [of "ix_compiled_patterns idx" v t1]
      compile_patterns_snd [OF build_index_Inr(4) [OF that(2)]] that(1)
    by auto
  then show ?thesis
    using pattern_lookup_distinct [of cvs] pattern_lookup_entry [of r n cvs]
      earlier_template_shadowed [of v2 cvs pre post t1]
    by blast
qed

theorem same_regex_later_template_wins_witness:
  "is_pattern_template ''TRTzzP'' \<and>
   template_regex ''TRTxxP'' = template_regex ''TRTzzP'' \<and>
   fst (build_pattern_lookup
      [\<lparr>name = ''TRTxxP'', dataset = ''ADSL''\<rparr>, \<lparr>name = ''TRTzzP'', dataset = ''ADSL''\<rparr>])
     = [(''^TRT'' @ two_digits @ ''P$'', ''TRTzzP'')] \<and>
   ''TRTxxP'' \<notin> set (map snd (fst (build_pattern_lookup
      [\<lparr>name = ''TRTxxP'', dataset = ''ADSL''\<rparr>, \<lparr>name = ''TRTzzP'', dataset = ''ADSL''\<rparr>]))) \<and>
   build_index [\<lparr>name = ''TRTxxP'', dataset = ''ADSL''\<rparr>, \<lparr>name = ''TRTzzP'', dataset = ''ADSL''\<rparr>]
     = Inr \<lparr>ix_class_var_names = {''TRTxxP'', ''TRTzzP''},
            ix_suffix_lookup = [], ix_sorted_suffixes = [],
            ix_compiled_patterns =
              [([At_beginning, Repeat (Lit CHR ''T'') 1 (Some 1), Repeat (Lit CHR ''R'') 1 (Some 1),
                 Repeat (Lit CHR ''T'') 1 (Some 1), Repeat Digit 2 (Some 2),
                 Repeat (Lit CHR ''P'') 1 (Some 1), At_end], ''TRTzzP'')]\<rparr> \<and>
   pattern_tier
      [([At_beginning, Repeat (Lit CHR ''T'') 1 (Some 1), Repeat (Lit CHR ''R'') 1 (Some 1),
         Repeat (Lit CHR ''T'') 1 (Some 1), Repeat Digit 2 (Some 2),
         Repeat (Lit CHR ''P'') 1 (Some 1), At_end], ''TRTzzP'')] ''TRT01P'' \<noteq> Some ''TRTxxP'' \<and>
   pattern_tier
      [([At_beginning, Repeat (Lit CHR ''T'') 1 (Some 1), Repeat (Lit CHR ''R'') 1 (Some 1),
         Repeat (Lit CHR ''T'') 1 (Some 1), Repeat Digit 2 (Some 2),
         Repeat (Lit CHR ''P'') 1 (Some 1), At_end], ''TRTzzP'')] ''TRT01P'' = Some ''TRTzzP''"
proof -
  let ?v1 = "\<lparr>name = ''TRTxxP'', dataset = ''ADSL''\<rparr>"
  let ?v2 = "\<lparr>name = ''TRTzzP'', dataset = ''ADSL''\<rparr>"
  let ?cps = "[([At_beginning, Repeat (Lit CHR ''T'') 1 (Some 1), Repeat (Lit CHR ''R'') 1 (Some 1),
         Repeat (Lit CHR ''T'') 1 (Some 1), Repeat Digit 2 (Some 2),
         Repeat (Lit CHR ''P'') 1 (Some 1), At_end], ''TRTzzP'')]"
  let ?idx = "\<lparr>ix_class_var_names = {''TRTxxP'', ''TRTzzP''},
            ix_suffix_lookup = [], ix_sorted_suffixes = [], ix_compiled_patterns = ?cps\<rparr>"
  have p: "is_pattern_template (name ?v2)" by code_simp
  have c: "[?v1, ?v2] = [?v1] @ ?v2 # []" by simp
  have n: "''TRTxxP'' \<notin> set (map name ([] :: variable list))" "''TRTxxP'' \<noteq> name ?v2" by simp_all
  have s: "template_regex ''TRTxxP'' = template_regex (name ?v2)" by code_simp
  have b: "build_index [?v1, ?v2] = Inr ?idx" by code_simp
  have l: "fst (build_pattern_lookup [?v1, ?v2]) = [(''^TRT'' @ two_digits @ ''P$'', ''TRTzzP'')]"
    by code_simp
  have hit: "pattern_tier ?cps ''TRT01P'' = Some ''TRTzzP''" by code_simp
  note inst = same_regex_later_template_wins [of "[?v1, ?v2]" _ _ ?v2 "[?v1]" "[]" "''TRTxxP''" ?idx "''TRT01P''",
      THEN conjunct2, THEN conjunct2, THEN mp, OF p, THEN mp, OF c, THEN mp, OF n(1),
      THEN mp, OF n(2), THEN mp, OF s]
  have a1: "''TRTxxP'' \<notin> set (map snd (fst (build_pattern_lookup [?v1, ?v2])))"
    using inst by blast
  have a2: "pattern_tier ?cps ''TRT01P'' \<noteq> Some ''TRTxxP''"
    using inst [THEN conjunct2, THEN mp, OF b] by simp
  from p s l a1 b a2 hit show ?thesis by simp
qed

end
